theory Spec2Isabelle
  imports Main
begin

section \<open>Python values used by nodemcuload.py\<close>

text \<open>
  The module is Python 3 code: \<open>bytes\<close> are lists of 8-bit characters, \<open>str\<close> values are
  lists of Unicode code points, and the two are converted with
  \<open>.encode("utf-8")\<close> and \<open>.decode("utf-8")\<close>.
\<close>

type_synonym bytes = "char list"
type_synonym str = "nat list"

definition lit :: "string \<Rightarrow> str" where
  "lit s = map of_char s"

text \<open>The two bytes of \<open>"\r\n"\<close>.\<close>

definition CRLF :: string where
  "CRLF = [CHR 0x0D, CHR 0x0A]"

text \<open>The exceptions the module raises or lets through (SerialException comes from the
  port), and the three ways a call can end: it returns, it raises, or it never returns
  because \<open>serial.read\<close> waits for bytes that do not come.\<close>

datatype exn =
    IOError str
  | ValueError
  | UnicodeDecodeError
  | UnicodeEncodeError
  | AttributeError
  | SerialException

datatype 'a outcome = Return 'a | Raise exn | Blocks

subsection \<open>Slices\<close>

text \<open>\<open>xs[i:]\<close> and \<open>xs[:i]\<close> for an integer \<open>i\<close>: a negative bound counts from the end,
  and every bound is clipped to the list.\<close>

definition slice_bound :: "int \<Rightarrow> nat \<Rightarrow> nat" where
  "slice_bound i n = (if i < 0 then nat (int n + i) else min (nat i) n)"

definition slice_from :: "int \<Rightarrow> 'a list \<Rightarrow> 'a list" where
  "slice_from i xs = drop (slice_bound i (length xs)) xs"

definition slice_to :: "int \<Rightarrow> 'a list \<Rightarrow> 'a list" where
  "slice_to i xs = take (slice_bound i (length xs)) xs"

subsection \<open>UTF-8\<close>

definition byte_in :: "nat \<Rightarrow> nat \<Rightarrow> char \<Rightarrow> bool" where
  "byte_in lo hi c = (lo \<le> (of_char c :: nat) \<and> (of_char c :: nat) \<le> hi)"

definition low6 :: "char \<Rightarrow> nat" where
  "low6 c = of_char c - 128"

text \<open>\<open>bytes.decode("utf-8")\<close>, strict: \<open>None\<close> stands for UnicodeDecodeError. Overlong
  forms, surrogates, code points above U+10FFFF and truncated sequences are rejected.\<close>

fun utf8_decode :: "bytes \<Rightarrow> str option" where
  "utf8_decode [] = Some []"
| "utf8_decode (b # bs) =
     (let n = (of_char b :: nat) in
      if n < 128 then map_option ((#) n) (utf8_decode bs)
      else if 194 \<le> n \<and> n \<le> 223 then
        (case bs of
           c1 # r \<Rightarrow>
             if byte_in 128 191 c1
             then map_option ((#) ((n - 192) * 64 + low6 c1)) (utf8_decode r)
             else None
         | _ \<Rightarrow> None)
      else if 224 \<le> n \<and> n \<le> 239 then
        (case bs of
           c1 # c2 # r \<Rightarrow>
             if byte_in (if n = 224 then 160 else 128) (if n = 237 then 159 else 191) c1
                \<and> byte_in 128 191 c2
             then map_option ((#) ((n - 224) * 4096 + low6 c1 * 64 + low6 c2)) (utf8_decode r)
             else None
         | _ \<Rightarrow> None)
      else if 240 \<le> n \<and> n \<le> 244 then
        (case bs of
           c1 # c2 # c3 # r \<Rightarrow>
             if byte_in (if n = 240 then 144 else 128) (if n = 244 then 143 else 191) c1
                \<and> byte_in 128 191 c2 \<and> byte_in 128 191 c3
             then map_option
                    ((#) ((n - 240) * 262144 + low6 c1 * 4096 + low6 c2 * 64 + low6 c3))
                    (utf8_decode r)
             else None
         | _ \<Rightarrow> None)
      else None)"

text \<open>\<open>str.encode("utf-8")\<close>: \<open>None\<close> stands for UnicodeEncodeError (a surrogate).\<close>

definition utf8_encode_char :: "nat \<Rightarrow> bytes option" where
  "utf8_encode_char c =
     (if c < 128 then Some [char_of c]
      else if c < 2048 then Some [char_of (192 + c div 64), char_of (128 + c mod 64)]
      else if c < 65536 then
        (if 55296 \<le> c \<and> c \<le> 57343 then None
         else Some [char_of (224 + c div 4096), char_of (128 + c div 64 mod 64),
                    char_of (128 + c mod 64)])
      else if c \<le> 1114111 then
        Some [char_of (240 + c div 262144), char_of (128 + c div 4096 mod 64),
              char_of (128 + c div 64 mod 64), char_of (128 + c mod 64)]
      else None)"

fun utf8_encode :: "str \<Rightarrow> bytes option" where
  "utf8_encode [] = Some []"
| "utf8_encode (c # cs) =
     (case utf8_encode_char c of
        None \<Rightarrow> None
      | Some bs \<Rightarrow> map_option ((@) bs) (utf8_encode cs))"

section \<open>The serial port\<close>

text \<open>The port is the session's only state. \<open>rx\<close> holds the bytes the device sends, in the
  order they arrive; \<open>tx\<close> records every \<open>serial.write\<close> call, oldest first. \<open>fault\<close>
  says what \<open>serial.read\<close> does once the device has sent all it will send: it waits
  forever (\<open>False\<close>: the port is opened without a timeout), or it raises
  SerialException (\<open>True\<close>: the port was closed or lost).\<close>

record serial =
  rx :: bytes
  tx :: "bytes list"
  fault :: bool

text \<open>\<open>serial.read(n)\<close>: it returns once \<open>n\<close> bytes have arrived.\<close>

definition serial_read :: "int \<Rightarrow> serial \<Rightarrow> bytes outcome \<times> serial" where
  "serial_read n ch =
     (if n \<le> 0 then (Return [], ch)
      else if nat n \<le> length (rx ch)
      then (Return (take (nat n) (rx ch)), ch\<lparr>rx := drop (nat n) (rx ch)\<rparr>)
      else ((if fault ch then Raise SerialException else Blocks), ch\<lparr>rx := []\<rparr>))"

definition serial_write :: "bytes \<Rightarrow> serial \<Rightarrow> serial" where
  "serial_write bs ch = ch\<lparr>tx := tx ch @ [bs]\<rparr>"

text \<open>Sequencing: the rest of a method runs only when a call has returned; an exception
  or a blocked read ends the method with the port as it then is.\<close>

definition and_then ::
  "'a outcome \<times> serial \<Rightarrow> ('a \<Rightarrow> serial \<Rightarrow> 'b outcome \<times> serial) \<Rightarrow> 'b outcome \<times> serial" where
  "and_then r f =
     (case r of
        (Return x, ch) \<Rightarrow> f x ch
      | (Raise e, ch) \<Rightarrow> (Raise e, ch)
      | (Blocks, ch) \<Rightarrow> (Blocks, ch))"

section \<open>NodeMCU.read_line and NodeMCU.send_command\<close>

text \<open>The argument of \<open>read_line\<close> is a string at every call site but one: \<open>dofile\<close> passes
  the set \<open>{"> "}\<close>.\<close>

datatype pyobj = PyStr str | PySet "str list"

text \<open>The loop \<open>while data[-2:] != line_ending: data += self.serial.read(1)\<close>.\<close>

function read_line_loop :: "bytes \<Rightarrow> bytes \<Rightarrow> serial \<Rightarrow> bytes outcome \<times> serial" where
  "read_line_loop line_ending data ch =
     (if slice_from (-2) data \<noteq> line_ending
      then (case serial_read 1 ch of
              (Return b, ch') \<Rightarrow> read_line_loop line_ending (data @ b) ch'
            | (Raise e, ch') \<Rightarrow> (Raise e, ch')
            | (Blocks, ch') \<Rightarrow> (Blocks, ch'))
      else (Return data, ch))"
  by pat_completeness auto
termination
  by (relation "measure (\<lambda>(line_ending, data, ch). length (rx ch))")
     (auto simp: serial_read_def split: if_splits option.splits)

declare read_line_loop.simps [simp del]

definition read_line :: "pyobj \<Rightarrow> serial \<Rightarrow> str outcome \<times> serial" where
  "read_line line_ending ch =
     (case line_ending of
        PySet _ \<Rightarrow> (Raise AttributeError, ch)
      | PyStr s \<Rightarrow>
          (case utf8_encode s of
             None \<Rightarrow> (Raise UnicodeEncodeError, ch)
           | Some le \<Rightarrow>
               and_then (read_line_loop le [] ch)
                 (\<lambda>data ch'.
                    case utf8_decode (slice_to (-2) data) of
                      None \<Rightarrow> (Raise UnicodeDecodeError, ch')
                    | Some line \<Rightarrow> (Return line, ch'))))"

definition send_command :: "str \<Rightarrow> serial \<Rightarrow> unit outcome \<times> serial" where
  "send_command cmd ch =
     (case utf8_encode (cmd @ lit CRLF) of
        None \<Rightarrow> (Raise UnicodeEncodeError, ch)
      | Some bs \<Rightarrow>
          and_then (read_line (PyStr (lit CRLF)) (serial_write bs ch))
            (\<lambda>_ ch'. (Return (), ch')))"

subsection \<open>Facts about the primitives that the loops below need to terminate\<close>

lemma and_then_cong [fundef_cong]:
  assumes "r = r'"
    and "\<And>x ch. r' = (Return x, ch) \<Longrightarrow> f x ch = f' x ch"
  shows "and_then r f = and_then r' f'"
  using assms by (auto simp: and_then_def split: prod.splits outcome.splits)

lemma read_line_loop_stop:
  "slice_from (-2) data = le \<Longrightarrow> read_line_loop le data ch = (Return data, ch)"
  by (subst read_line_loop.simps) simp

lemma read_line_loop_step:
  "slice_from (-2) data \<noteq> le \<Longrightarrow> rx ch = b # bs \<Longrightarrow>
     read_line_loop le data ch = read_line_loop le (data @ [b]) (ch\<lparr>rx := bs\<rparr>)"
  by (subst read_line_loop.simps) (simp add: serial_read_def)

lemma read_line_loop_starved:
  "slice_from (-2) data \<noteq> le \<Longrightarrow> rx ch = [] \<Longrightarrow>
     read_line_loop le data ch
       = ((if fault ch then Raise SerialException else Blocks), ch\<lparr>rx := []\<rparr>)"
  by (subst read_line_loop.simps) (simp add: serial_read_def)

lemma read_line_loop_rx:
  "rx ch = inp \<Longrightarrow> read_line_loop le data ch = (Return d, ch') \<Longrightarrow>
     length (rx ch') \<le> length inp \<and>
     (slice_from (-2) data \<noteq> le \<longrightarrow> length (rx ch') < length inp)"
proof (induction inp arbitrary: data ch)
  case Nil
  then show ?case
    by (cases "slice_from (-2) data = le")
       (simp_all add: read_line_loop_stop read_line_loop_starved split: if_splits)
next
  case (Cons b bs)
  show ?case
  proof (cases "slice_from (-2) data = le")
    case True
    with Cons.prems show ?thesis by (simp add: read_line_loop_stop)
  next
    case False
    from Cons.prems False
    have "read_line_loop le (data @ [b]) (ch\<lparr>rx := bs\<rparr>) = (Return d, ch')"
      by (simp add: read_line_loop_step)
    from Cons.IH [OF _ this] have "length (rx ch') \<le> length bs" by simp
    then show ?thesis by simp
  qed
qed

text \<open>ASCII text is its own UTF-8 encoding.\<close>

definition ascii :: "bytes \<Rightarrow> bool" where
  "ascii s = list_all (\<lambda>c. (of_char c :: nat) < 128) s"

lemma utf8_encode_lit: "ascii s \<Longrightarrow> utf8_encode (lit s) = Some s"
  by (induction s) (simp_all add: ascii_def lit_def utf8_encode_char_def)

lemma utf8_decode_ascii: "ascii s \<Longrightarrow> utf8_decode s = Some (lit s)"
  by (induction s) (simp_all add: ascii_def lit_def)

lemma utf8_encode_CRLF: "utf8_encode (lit CRLF) = Some CRLF"
  by (rule utf8_encode_lit) (simp add: ascii_def CRLF_def)

lemma read_line_CRLF_rx:
  assumes "read_line (PyStr (lit CRLF)) ch = (Return line, ch')"
  shows "length (rx ch') < length (rx ch)"
proof -
  from assms obtain d where d: "read_line_loop CRLF [] ch = (Return d, ch')"
    by (auto simp: read_line_def and_then_def utf8_encode_CRLF
             split: option.splits prod.splits outcome.splits)
  have "slice_from (-2) ([] :: bytes) \<noteq> CRLF"
    by (simp add: slice_from_def CRLF_def)
  with read_line_loop_rx [OF refl d] show ?thesis by simp
qed

lemma send_command_rx:
  assumes "send_command cmd ch = (Return u, ch')"
  shows "length (rx ch') < length (rx ch)"
proof -
  from assms obtain bs line where
    "read_line (PyStr (lit CRLF)) (serial_write bs ch) = (Return line, ch')"
    by (auto simp: send_command_def and_then_def
             split: option.splits prod.splits outcome.splits)
  from read_line_CRLF_rx [OF this] show ?thesis by (simp add: serial_write_def)
qed

lemma serial_read_rx:
  "serial_read n ch = (Return bs, ch') \<Longrightarrow> length (rx ch') \<le> length (rx ch)"
  by (auto simp: serial_read_def split: if_splits option.splits)

section \<open>Built-in functions the module calls\<close>

text \<open>\<open>repr\<close> and \<open>int\<close> consult the Unicode character database for code points
  outside ASCII. The database is not part of the module; it is a parameter of the model.\<close>

record unicode_db =
  isprintable :: "nat \<Rightarrow> bool"
  isspace :: "nat \<Rightarrow> bool"
  todecimal :: "nat \<Rightarrow> nat option"

subsection \<open>\<open>repr\<close> of a string\<close>

definition hexdigit :: "nat \<Rightarrow> nat" where
  "hexdigit d = lit ''0123456789abcdef'' ! (d mod 16)"

definition hex_digits :: "nat \<Rightarrow> nat \<Rightarrow> str" where
  "hex_digits k c = map (\<lambda>i. hexdigit (c div 16 ^ i)) (rev [0..<k])"

text \<open>One character of \<open>repr(s)\<close>, for the quote character \<open>q\<close> that \<open>repr\<close> has chosen.
  92 is the backslash, 39 the single quote and 34 the double quote.\<close>

definition repr_char :: "unicode_db \<Rightarrow> nat \<Rightarrow> nat \<Rightarrow> str" where
  "repr_char U q c =
     (if c = q \<or> c = 92 then [92, c]
      else if c = 9 then [92, 116]
      else if c = 10 then [92, 110]
      else if c = 13 then [92, 114]
      else if c < 32 \<or> c = 127 then [92, 120] @ hex_digits 2 c
      else if c < 127 then [c]
      else if isprintable U c then [c]
      else if c \<le> 255 then [92, 120] @ hex_digits 2 c
      else if c \<le> 65535 then [92, 117] @ hex_digits 4 c
      else [92, 85] @ hex_digits 8 c)"

text \<open>\<open>repr(s)\<close>: single quotes, unless the string holds a single quote and no double
  quote; then double quotes.\<close>

definition repr :: "unicode_db \<Rightarrow> str \<Rightarrow> str" where
  "repr U s =
     (let q = (if 39 \<in> set s \<and> 34 \<notin> set s then 34 else 39)
      in [q] @ concat (map (repr_char U q) s) @ [q])"

subsection \<open>\<open>str\<close> of an integer, as \<open>"{}".format(n)\<close> inserts it\<close>

fun dec_str :: "nat \<Rightarrow> str" where
  "dec_str n = (if n < 10 then [48 + n] else dec_str (n div 10) @ [48 + n mod 10])"

declare dec_str.simps [simp del]

definition str_of_int :: "int \<Rightarrow> str" where
  "str_of_int i = (if i < 0 then 45 # dec_str (nat (- i)) else dec_str (nat i))"

subsection \<open>\<open>int\<close> of a string\<close>

text \<open>\<open>int(s)\<close> first maps the non-ASCII spaces and decimal digits of \<open>s\<close> to ASCII; at the
  first other non-ASCII character the text is cut and ends in \<open>?\<close>. Then: optional white
  space, an optional sign, decimal digits that single underscores may separate, optional
  white space. \<open>None\<close> stands for ValueError. The bound that recent interpreters put on
  the number of digits is not modelled.\<close>

fun to_ascii :: "unicode_db \<Rightarrow> str \<Rightarrow> str" where
  "to_ascii U [] = []"
| "to_ascii U (c # cs) =
     (if c < 127 then c # to_ascii U cs
      else if isspace U c then 32 # to_ascii U cs
      else (case todecimal U c of
              Some d \<Rightarrow> (48 + d) # to_ascii U cs
            | None \<Rightarrow> [63]))"

definition is_space :: "nat \<Rightarrow> bool" where
  "is_space c = (c = 32 \<or> (9 \<le> c \<and> c \<le> 13))"

definition is_digit :: "nat \<Rightarrow> bool" where
  "is_digit c = (48 \<le> c \<and> c \<le> 57)"

fun underscores_ok :: "str \<Rightarrow> bool" where
  "underscores_ok (a # b # r) = (\<not> (a = 95 \<and> b = 95) \<and> underscores_ok (b # r))"
| "underscores_ok r = True"

definition digits_value :: "str \<Rightarrow> nat" where
  "digits_value ds = foldl (\<lambda>a c. a * 10 + (c - 48)) 0 ds"

definition int_of_digits :: "str \<Rightarrow> nat option" where
  "int_of_digits body =
     (if body = [] \<or> hd body = 95 \<or> last body = 95 \<or> \<not> underscores_ok body
         \<or> \<not> list_all (\<lambda>c. is_digit c \<or> c = 95) body
      then None
      else Some (digits_value (filter (\<lambda>c. c \<noteq> 95) body)))"

definition int_of_str :: "unicode_db \<Rightarrow> str \<Rightarrow> int option" where
  "int_of_str U s =
     (let t = dropWhile is_space (to_ascii U s);
          neg = (t \<noteq> [] \<and> hd t = 45);
          t1 = (if t \<noteq> [] \<and> (hd t = 45 \<or> hd t = 43) then tl t else t);
          body = rev (dropWhile is_space (rev t1))
      in map_option (\<lambda>n. if neg then - int n else int n) (int_of_digits body))"

subsection \<open>\<open>str.partition\<close> with a one-character separator\<close>

definition partition_str :: "nat \<Rightarrow> str \<Rightarrow> str \<times> str \<times> str" where
  "partition_str sep s =
     (if sep \<in> set s
      then (takeWhile (\<lambda>c. c \<noteq> sep) s, [sep], tl (dropWhile (\<lambda>c. c \<noteq> sep) s))
      else (s, [], []))"

section \<open>The file operations of class NodeMCU\<close>

text \<open>The methods that the properties below are about. \<open>flush\<close>, \<open>get_version\<close>,
  \<open>remove_file\<close>, \<open>rename_file\<close>, \<open>format\<close> and \<open>main\<close> are left out.\<close>

text \<open>\<open>self.read_line()\<close> with its default argument.\<close>

definition read_response :: "serial \<Rightarrow> str outcome \<times> serial" where
  "read_response ch = read_line (PyStr (lit CRLF)) ch"

subsection \<open>write_file\<close>

text \<open>The loop \<open>while data: ...\<close> of \<open>write_file\<close>.\<close>

function write_file_loop ::
  "unicode_db \<Rightarrow> str \<Rightarrow> int \<Rightarrow> serial \<Rightarrow> unit outcome \<times> serial" where
  "write_file_loop U data block_size ch =
     (if data \<noteq> [] then
        (let block = slice_to block_size data;
             data' = slice_from block_size data
         in and_then (send_command (lit ''=file.write('' @ repr U block @ lit '')'') ch)
              (\<lambda>_ ch1.
                and_then (read_response ch1)
                  (\<lambda>response ch2.
                     if response \<noteq> lit ''true''
                     then (Raise (IOError (lit ''Write failed! (Return value: ''
                                            @ repr U response @ lit '')'')), ch2)
                     else write_file_loop U data' block_size ch2)))
      else (Return (), ch))"
  by pat_completeness auto
termination
proof (relation "measure (\<lambda>(U, data, block_size, ch). length (rx ch))")
  show "wf (measure (\<lambda>(U, data, block_size, ch). length (rx ch)))"
    by simp
next
  fix U :: unicode_db and data :: str and block_size :: int and ch ch1 ch2 :: serial
    and block data' :: str and u :: unit and response :: str
  assume "send_command (lit ''=file.write('' @ repr U block @ lit '')'') ch = (Return u, ch1)"
    and "read_response ch1 = (Return response, ch2)"
  then have "length (rx ch1) < length (rx ch)" and "length (rx ch2) < length (rx ch1)"
    by (auto simp: read_response_def dest: send_command_rx read_line_CRLF_rx)
  then show "((U, data', block_size, ch2), (U, data, block_size, ch))
               \<in> measure (\<lambda>(U, data, block_size, ch). length (rx ch))"
    by simp
qed

declare write_file_loop.simps [simp del]

definition write_file ::
  "unicode_db \<Rightarrow> str \<Rightarrow> str \<Rightarrow> int \<Rightarrow> serial \<Rightarrow> unit outcome \<times> serial" where
  "write_file U filename data block_size ch =
     and_then (send_command (lit ''file.close()'') ch)
       (\<lambda>_ ch1.
         and_then (send_command (lit ''=file.open('' @ repr U filename @ lit '', 'w')'') ch1)
           (\<lambda>_ ch2.
             and_then (read_response ch2)
               (\<lambda>r ch3.
                  if r = lit ''nil''
                  then (Raise (IOError (lit ''Could not open file for writing!'')), ch3)
                  else and_then (write_file_loop U data block_size ch3)
                         (\<lambda>_ ch4. send_command (lit ''file.close()'') ch4))))"

subsection \<open>read_file\<close>

text \<open>The loop \<open>while size: ...\<close> (\<open>sz\<close> is the variable \<open>size\<close>) of \<open>read_file\<close>.\<close>

function read_file_loop :: "int \<Rightarrow> int \<Rightarrow> bytes \<Rightarrow> serial \<Rightarrow> bytes outcome \<times> serial" where
  "read_file_loop sz block_size data ch =
     (if sz \<noteq> 0 then
        (let block = max sz block_size;
             sz' = sz - block
         in and_then (send_command (lit ''uart.write(0, file.read('' @ str_of_int block
                                      @ lit ''))'') ch)
              (\<lambda>_ ch1.
                and_then (serial_read block ch1)
                  (\<lambda>bs ch2. read_file_loop sz' block_size (data @ bs) ch2)))
      else (Return data, ch))"
  by pat_completeness auto
termination
proof (relation "measure (\<lambda>(sz, block_size, data, ch). length (rx ch))")
  show "wf (measure (\<lambda>(sz, block_size, data, ch). length (rx ch)))"
    by simp
next
  fix sz block_size block sz' :: int and data bs :: bytes and ch ch1 ch2 :: serial
    and u :: unit
  assume "send_command (lit ''uart.write(0, file.read('' @ str_of_int block @ lit ''))'') ch
            = (Return u, ch1)"
    and "serial_read block ch1 = (Return bs, ch2)"
  then have "length (rx ch1) < length (rx ch)" and "length (rx ch2) \<le> length (rx ch1)"
    by (auto dest: send_command_rx serial_read_rx)
  then show "((sz', block_size, data @ bs, ch2), (sz, block_size, data, ch))
               \<in> measure (\<lambda>(sz, block_size, data, ch). length (rx ch))"
    by simp
qed

declare read_file_loop.simps [simp del]

definition read_file ::
  "unicode_db \<Rightarrow> str \<Rightarrow> int \<Rightarrow> serial \<Rightarrow> str outcome \<times> serial" where
  "read_file U filename block_size ch =
     and_then (send_command (lit ''file.close()'') ch)
       (\<lambda>_ ch1.
         and_then (send_command (lit ''=file.list()['' @ repr U filename @ lit '']'') ch1)
           (\<lambda>_ ch2.
             and_then (read_response ch2)
               (\<lambda>sz ch3.
                  if sz = lit ''nil''
                  then (Raise (IOError (lit ''File does not exist!'')), ch3)
                  else
                    (case int_of_str U sz of
                       None \<Rightarrow> (Raise ValueError, ch3)
                     | Some sz \<Rightarrow>
                         and_then (send_command (lit ''=file.open('' @ repr U filename
                                                  @ lit '', 'r')'') ch3)
                           (\<lambda>_ ch4.
                             and_then (read_response ch4)
                               (\<lambda>r ch5.
                                  if r \<noteq> lit ''true''
                                  then (Raise (IOError (lit ''Could not open file!'')), ch5)
                                  else
                                    and_then (read_file_loop sz block_size [] ch5)
                                      (\<lambda>data ch6.
                                         case utf8_decode data of
                                           None \<Rightarrow> (Raise UnicodeDecodeError, ch6)
                                         | Some text \<Rightarrow> (Return text, ch6))))))))"

subsection \<open>list_files\<close>

text \<open>The loop \<open>for file in range(num_files): ...\<close>; the dictionary is a map.\<close>

fun list_files_loop ::
  "unicode_db \<Rightarrow> nat \<Rightarrow> (str \<rightharpoonup> int) \<Rightarrow> serial \<Rightarrow> (str \<rightharpoonup> int) outcome \<times> serial" where
  "list_files_loop U 0 files ch = (Return files, ch)"
| "list_files_loop U (Suc n) files ch =
     and_then (read_response ch)
       (\<lambda>line ch1.
          case partition_str 9 line of
            (filename_length, _, line) \<Rightarrow>
              (case int_of_str U filename_length of
                 None \<Rightarrow> (Raise ValueError, ch1)
               | Some filename_length \<Rightarrow>
                   (let filename = slice_to filename_length line in
                    case int_of_str U (slice_from (filename_length + 1) line) of
                      None \<Rightarrow> (Raise ValueError, ch1)
                    | Some sz \<Rightarrow> list_files_loop U n (files(filename \<mapsto> sz)) ch1)))"

text \<open>The two statements \<open>list_files\<close> sends.\<close>

definition count_files_snippet :: string where
  "count_files_snippet =
     ''do local cnt = 0;'' @ ''for k, v in pairs(file.list()) do''
     @ ''    cnt = cnt + 1 end;'' @ ''    print(cnt);'' @ ''end''"

definition list_files_snippet :: string where
  "list_files_snippet =
     ''for f,s in pairs(file.list()) do'' @ ''    print(#f, f, s);'' @ ''end''"

definition list_files :: "unicode_db \<Rightarrow> serial \<Rightarrow> (str \<rightharpoonup> int) outcome \<times> serial" where
  "list_files U ch =
     and_then (send_command (lit count_files_snippet) ch)
       (\<lambda>_ ch1.
         and_then (read_response ch1)
           (\<lambda>r ch2.
              case int_of_str U r of
                None \<Rightarrow> (Raise ValueError, ch2)
              | Some num_files \<Rightarrow>
                  and_then (send_command (lit list_files_snippet) ch2)
                    (\<lambda>_ ch3. list_files_loop U (nat num_files) Map.empty ch3)))"

subsection \<open>dofile and restart\<close>

definition dofile :: "unicode_db \<Rightarrow> str \<Rightarrow> serial \<Rightarrow> str outcome \<times> serial" where
  "dofile U filename ch =
     and_then (send_command (lit ''=file.list()['' @ repr U filename @ lit '']'') ch)
       (\<lambda>_ ch1.
         and_then (read_response ch1)
           (\<lambda>r ch2.
              if r = lit ''nil''
              then (Raise (IOError (lit ''File does not exist!'')), ch2)
              else and_then (send_command (lit ''dofile('' @ repr U filename @ lit '')'') ch2)
                     (\<lambda>_ ch3. read_line (PySet [lit ''> '']) ch3)))"

text \<open>\<open>try: self.read_line("> ") except UnicodeDecodeError: pass\<close>\<close>

definition restart :: "serial \<Rightarrow> unit outcome \<times> serial" where
  "restart ch =
     and_then (send_command (lit ''node.restart()'') ch)
       (\<lambda>_ ch1.
         and_then (read_line (PyStr (lit ''> '')) ch1)
           (\<lambda>_ ch2.
              case read_line (PyStr (lit ''> '')) ch2 of
                (Raise UnicodeDecodeError, ch3) \<Rightarrow> (Return (), ch3)
              | (Raise e, ch3) \<Rightarrow> (Raise e, ch3)
              | (Blocks, ch3) \<Rightarrow> (Blocks, ch3)
              | (Return _, ch3) \<Rightarrow> (Return (), ch3)))"

section \<open>Reading up to a line ending\<close>

text \<open>\<open>read_line_loop\<close> compares the last two bytes of what it has read with the line
  ending. The lemmas below say where it stops on a port whose input holds a two-byte
  ending.\<close>

lemma slice_from_m2_app2: "slice_from (-2) (xs @ [a, b]) = [a, b]"
  by (simp add: slice_from_def slice_bound_def)

lemma slice_from_m2_eq2:
  assumes "slice_from (-2) p = [a, b]"
  shows "2 \<le> length p \<and> last p = b \<and> p ! (length p - 2) = a"
proof -
  from assms have d: "drop (length p - 2) p = [a, b]"
    by (simp add: slice_from_def slice_bound_def nat_diff_distrib')
  then have "length (drop (length p - 2) p) = 2" by simp
  then have len: "2 \<le> length p" by simp
  from d have "last (drop (length p - 2) p) = b" by simp
  with len have l: "last p = b" by (simp add: last_drop)
  from d have "hd (drop (length p - 2) p) = a" by simp
  with len have "p ! (length p - 2) = a" by (simp add: hd_drop_conv_nth)
  with len l show ?thesis by simp
qed

lemma read_line_loop_scan:
  assumes nm: "\<And>n. n < length pre \<Longrightarrow> slice_from (-2) (take n pre) \<noteq> le"
    and fin: "slice_from (-2) pre = le"
  shows "n \<le> length pre \<Longrightarrow> rx ch = drop n pre @ rest \<Longrightarrow>
           read_line_loop le (take n pre) ch = (Return pre, ch\<lparr>rx := rest\<rparr>)"
proof (induction "length pre - n" arbitrary: n ch)
  case 0
  then have "take n pre = pre" and "rx ch = rest" by simp_all
  with fin show ?case by (simp add: read_line_loop_stop)
next
  case (Suc k)
  then have n: "n < length pre" by simp
  then have rxc: "rx ch = pre ! n # (drop (Suc n) pre @ rest)"
    using Suc.prems by (simp add: Cons_nth_drop_Suc)
  have "read_line_loop le (take n pre) ch
          = read_line_loop le (take n pre @ [pre ! n]) (ch\<lparr>rx := drop (Suc n) pre @ rest\<rparr>)"
    by (rule read_line_loop_step [OF nm [OF n] rxc])
  also have "take n pre @ [pre ! n] = take (Suc n) pre"
    using n by (simp add: take_Suc_conv_app_nth)
  also have "read_line_loop le (take (Suc n) pre) (ch\<lparr>rx := drop (Suc n) pre @ rest\<rparr>)
               = (Return pre, ch\<lparr>rx := drop (Suc n) pre @ rest\<rparr>\<lparr>rx := rest\<rparr>)"
    using Suc.hyps n by (intro Suc.hyps(1)) simp_all
  finally show ?case by simp
qed

lemma read_line_loop_found:
  assumes "b \<notin> set line" and "rx ch = line @ [a, b] @ rest"
  shows "read_line_loop [a, b] [] ch = (Return (line @ [a, b]), ch\<lparr>rx := rest\<rparr>)"
proof -
  let ?pre = "line @ [a, b]"
  have nm: "slice_from (-2) (take n ?pre) \<noteq> [a, b]" if n: "n < length ?pre" for n
  proof
    assume eq: "slice_from (-2) (take n ?pre) = [a, b]"
    define p where "p = take n ?pre"
    have lp: "length p = n" using n by (simp add: p_def)
    from slice_from_m2_eq2 [OF eq] lp
    have n2: "2 \<le> n" and l: "last (take n ?pre) = b" and h: "take n ?pre ! (n - 2) = a"
      unfolding p_def [symmetric] by simp_all
    show False
    proof (cases "n \<le> length line")
      case True
      with n2 have "take n ?pre = take n line" and "take n line \<noteq> []" by auto
      with l have "b \<in> set (take n line)" by (metis last_in_set)
      then have "b \<in> set line" by (rule in_set_takeD)
      with assms(1) show False by simp
    next
      case False
      with n have n1: "n = Suc (length line)" by simp
      then have "take n ?pre = line @ [a]" by simp
      moreover from n1 n2 have ne: "line \<noteq> []" by auto
      ultimately have "a = b" and "line ! (length line - 1) = a"
        using l h n1 by (auto simp: nth_append split: if_splits)
      with ne have "b \<in> set line" by (metis last_conv_nth last_in_set)
      with assms(1) show False by simp
    qed
  qed
  have "read_line_loop [a, b] (take 0 ?pre) ch = (Return ?pre, ch\<lparr>rx := rest\<rparr>)"
    by (rule read_line_loop_scan [OF nm slice_from_m2_app2]) (simp_all add: assms(2))
  then show ?thesis by simp
qed

section \<open>Commands and responses on a scripted port\<close>

text \<open>A line as the device sends it before a CRLF: it holds no CRLF itself, so the CRLF
  that follows is the first place where \<open>read_line\<close> stops, and it decodes as UTF-8.\<close>

fun has_crlf :: "bytes \<Rightarrow> bool" where
  "has_crlf (a # b # r) = ((a = CHR 0x0D \<and> b = CHR 0x0A) \<or> has_crlf (b # r))"
| "has_crlf r = False"

definition text_line :: "bytes \<Rightarrow> bool" where
  "text_line l = (\<not> has_crlf l \<and> utf8_decode l \<noteq> None)"

text \<open>A command that \<open>send_command\<close> can encode, and the bytes it then writes.\<close>

definition encodable :: "str \<Rightarrow> bool" where
  "encodable s = (utf8_encode s \<noteq> None)"

definition wire :: "str \<Rightarrow> bytes" where
  "wire cmd = the (utf8_encode (cmd @ lit CRLF))"

text \<open>The character database calls no surrogate and nothing beyond U+10FFFF printable.\<close>

definition wf_db :: "unicode_db \<Rightarrow> bool" where
  "wf_db U = (\<forall>c. isprintable U c \<longrightarrow> utf8_encode_char c \<noteq> None)"

lemma slice_to_m2_app2: "slice_to (-2) (xs @ [a, b]) = xs"
  by (simp add: slice_to_def slice_bound_def)

lemma read_line_found:
  assumes "utf8_encode s = Some [a, b]" and "b \<notin> set line"
    and "rx ch = line @ [a, b] @ rest"
  shows "read_line (PyStr s) ch =
           ((case utf8_decode line of
               None \<Rightarrow> Raise UnicodeDecodeError
             | Some t \<Rightarrow> Return t), ch\<lparr>rx := rest\<rparr>)"
  using assms(1) read_line_loop_found [OF assms(2,3)]
  by (simp add: read_line_def and_then_def slice_to_m2_app2 split: option.splits)

lemma no_lf_no_crlf: "CHR 0x0A \<notin> set l \<Longrightarrow> \<not> has_crlf l"
  by (induction l rule: has_crlf.induct) auto

lemma has_crlf_nth:
  "Suc i < length l \<Longrightarrow> l ! i = CHR 0x0D \<Longrightarrow> l ! Suc i = CHR 0x0A \<Longrightarrow> has_crlf l"
proof (induction l arbitrary: i rule: has_crlf.induct)
  case (1 a b r)
  show ?case
  proof (cases i)
    case 0
    with "1.prems" show ?thesis by simp
  next
    case (Suc j)
    with "1.prems" have "has_crlf (b # r)" by (intro "1.IH" [of j]) simp_all
    then show ?thesis by simp
  qed
qed simp_all

lemma read_line_loop_found_crlf:
  assumes "\<not> has_crlf l" and "rx ch = l @ CRLF @ rest"
  shows "read_line_loop CRLF [] ch = (Return (l @ CRLF), ch\<lparr>rx := rest\<rparr>)"
proof -
  let ?pre = "l @ CRLF"
  have nm: "slice_from (-2) (take n ?pre) \<noteq> CRLF" if n: "n < length ?pre" for n
  proof
    assume "slice_from (-2) (take n ?pre) = CRLF"
    then have eq: "slice_from (-2) (take n ?pre) = [CHR 0x0D, CHR 0x0A]"
      by (simp add: CRLF_def)
    define p where "p = take n ?pre"
    have lp: "length p = n" using n by (simp add: p_def)
    from slice_from_m2_eq2 [OF eq] lp
    have n2: "2 \<le> n" and la: "last p = CHR 0x0A" and h: "p ! (n - 2) = CHR 0x0D"
      unfolding p_def [symmetric] by simp_all
    from n2 lp have "p \<noteq> []" by auto
    with la lp have la': "p ! (n - 1) = CHR 0x0A" by (simp add: last_conv_nth)
    have "p ! (n - 2) = ?pre ! (n - 2)"
      unfolding p_def by (rule nth_take) (use n2 in simp)
    moreover have "p ! (n - 1) = ?pre ! (n - 1)"
      unfolding p_def by (rule nth_take) (use n2 in simp)
    ultimately have a: "?pre ! (n - 2) = CHR 0x0D" and b: "?pre ! (n - 1) = CHR 0x0A"
      using h la' by simp_all
    show False
    proof (cases "n - 1 < length l")
      case True
      define i where "i = n - 2"
      from n2 have si: "Suc i = n - 1" by (simp add: i_def)
      with True have lt: "Suc i < length l" and lt0: "i < length l" by simp_all
      from a lt0 have "l ! i = CHR 0x0D" by (simp add: i_def nth_append)
      moreover from b lt si have "l ! Suc i = CHR 0x0A" by (simp add: nth_append)
      ultimately have "has_crlf l" by (rule has_crlf_nth [OF lt])
      with assms(1) show False by simp
    next
      case False
      with n have "n - 1 = length l" by (simp add: CRLF_def)
      with b show False by (simp add: nth_append CRLF_def)
    qed
  qed
  have fin: "slice_from (-2) ?pre = CRLF"
    using slice_from_m2_app2 [of l "CHR 0x0D" "CHR 0x0A"] by (simp add: CRLF_def)
  have "read_line_loop CRLF (take 0 ?pre) ch = (Return ?pre, ch\<lparr>rx := rest\<rparr>)"
    by (rule read_line_loop_scan [OF nm fin]) (simp_all add: assms(2))
  then show ?thesis by simp
qed

lemma read_response_text:
  assumes "\<not> has_crlf l" and "rx ch = l @ CRLF @ rest"
  shows "read_response ch =
           ((case utf8_decode l of
               None \<Rightarrow> Raise UnicodeDecodeError
             | Some t \<Rightarrow> Return t), ch\<lparr>rx := rest\<rparr>)"
proof -
  have "slice_to (-2) (l @ CRLF) = l"
    using slice_to_m2_app2 [of l "CHR 0x0D" "CHR 0x0A"] by (simp add: CRLF_def)
  with read_line_loop_found_crlf [OF assms] show ?thesis
    by (simp add: read_response_def read_line_def utf8_encode_CRLF and_then_def
             split: option.splits)
qed

lemma read_response_line:
  assumes "text_line l" and "rx ch = l @ CRLF @ rest"
  shows "read_response ch = (Return (the (utf8_decode l)), ch\<lparr>rx := rest\<rparr>)"
proof -
  from assms(1) have nc: "\<not> has_crlf l" and dec: "utf8_decode l \<noteq> None"
    by (simp_all add: text_line_def)
  from read_response_text [OF nc assms(2)] dec show ?thesis by auto
qed

lemma utf8_encode_append:
  "utf8_encode (xs @ ys) =
     (case utf8_encode xs of
        None \<Rightarrow> None
      | Some a \<Rightarrow> map_option ((@) a) (utf8_encode ys))"
  by (induction xs) (cases "utf8_encode ys"; auto split: option.splits)+

lemma send_command_echo:
  assumes "encodable cmd" and "text_line echo" and "rx ch = echo @ CRLF @ rest"
  shows "send_command cmd ch = (Return (), ch\<lparr>rx := rest, tx := tx ch @ [wire cmd]\<rparr>)"
proof -
  from assms(1) obtain bs where bs: "utf8_encode (cmd @ lit CRLF) = Some bs"
    by (auto simp: encodable_def utf8_encode_append utf8_encode_CRLF split: option.splits)
  then have w: "wire cmd = bs" by (simp add: wire_def)
  have "rx (serial_write bs ch) = echo @ CRLF @ rest"
    using assms(3) by (simp add: serial_write_def)
  from read_response_line [OF assms(2) this] show ?thesis
    by (simp add: send_command_def bs w and_then_def read_response_def serial_write_def)
qed

subsection \<open>Decimal numbers\<close>

lemma dec_str_nonempty: "dec_str n \<noteq> []"
  by (subst dec_str.simps) simp

lemma dec_str_digits: "list_all is_digit (dec_str n)"
proof (induction n rule: dec_str.induct)
  case (1 n)
  show ?case
  proof (cases "n < 10")
    case True
    then show ?thesis by (subst dec_str.simps) (simp add: is_digit_def)
  next
    case False
    with 1 have "list_all is_digit (dec_str (n div 10))" by simp
    moreover have "is_digit (48 + n mod 10)" by (simp add: is_digit_def)
    ultimately show ?thesis using False by (subst dec_str.simps) simp
  qed
qed

lemma digits_value_dec_str: "digits_value (dec_str n) = n"
proof (induction n rule: dec_str.induct)
  case (1 n)
  show ?case
  proof (cases "n < 10")
    case True
    then show ?thesis by (subst dec_str.simps) (simp add: digits_value_def)
  next
    case False
    with 1 have "digits_value (dec_str (n div 10)) = n div 10" by simp
    with False show ?thesis
      by (subst dec_str.simps) (simp add: digits_value_def)
  qed
qed

lemma to_ascii_id: "list_all (\<lambda>c. c < 127) s \<Longrightarrow> to_ascii U s = s"
  by (induction s) simp_all

lemma underscores_ok_none: "95 \<notin> set s \<Longrightarrow> underscores_ok s"
  by (induction s rule: underscores_ok.induct) simp_all

lemma int_of_str_digits:
  assumes ne: "s \<noteq> []" and dg: "list_all is_digit s"
  shows "int_of_str U s = Some (int (digits_value s))"
proof -
  from dg have lt: "list_all (\<lambda>c. c < 127) s"
    by (auto simp: list_all_iff is_digit_def)
  from dg have no_us: "95 \<notin> set s" and no_sp: "\<forall>c\<in>set s. \<not> is_space c"
    and no_sign: "\<forall>c\<in>set s. c \<noteq> 45 \<and> c \<noteq> 43"
    by (auto simp: list_all_iff is_digit_def is_space_def)
  from ne no_sp have h: "\<not> is_space (hd s)" and l: "\<not> is_space (last s)"
    by (simp_all add: hd_in_set last_in_set)
  from ne h have dw: "dropWhile is_space s = s"
    by (cases s) simp_all
  from ne l have dwr: "dropWhile is_space (rev s) = rev s"
    by (cases "rev s") (auto simp: hd_rev)
  from ne no_sign have sg: "hd s \<noteq> 45" "hd s \<noteq> 43"
    using hd_in_set by blast+
  from ne no_us have us: "hd s \<noteq> 95" "last s \<noteq> 95"
    by (metis hd_in_set, metis last_in_set)
  from no_us have flt: "filter (\<lambda>c. c \<noteq> 95) s = s"
    by (induction s) auto
  from dg have la: "list_all (\<lambda>c. is_digit c \<or> c = 95) s"
    by (auto simp: list_all_iff)
  have "int_of_digits s = Some (digits_value s)"
    using ne us la flt underscores_ok_none [OF no_us] by (simp add: int_of_digits_def)
  then show ?thesis
    using ne sg dw dwr by (simp add: int_of_str_def to_ascii_id [OF lt] Let_def)
qed

lemma int_of_str_dec_str: "int_of_str U (dec_str n) = Some (int n)"
  using int_of_str_digits [OF dec_str_nonempty dec_str_digits]
  by (simp add: digits_value_dec_str)

text \<open>The bytes of a string of ASCII characters.\<close>

definition ascii_bytes :: "str \<Rightarrow> bytes" where
  "ascii_bytes s = map char_of s"

lemma utf8_decode_ascii_bytes:
  "list_all (\<lambda>c. c < 128) s \<Longrightarrow> utf8_decode (ascii_bytes s) = Some s"
  by (induction s) (simp_all add: ascii_bytes_def)

lemma dec_str_lt128: "list_all (\<lambda>c. c < 128) (dec_str n)"
  using dec_str_digits [of n] by (auto simp: list_all_iff is_digit_def)

lemma dec_bytes_no_lf: "CHR 0x0A \<notin> set (ascii_bytes (dec_str n))"
proof
  assume "CHR 0x0A \<in> set (ascii_bytes (dec_str n))"
  then obtain c where c: "c \<in> set (dec_str n)" and e: "char_of c = CHR 0x0A"
    by (auto simp: ascii_bytes_def)
  from c dec_str_digits [of n] have "48 \<le> c" "c \<le> 57"
    by (auto simp: list_all_iff is_digit_def)
  moreover from e have "of_char (char_of c) = (of_char (CHR 0x0A) :: nat)" by simp
  ultimately show False by simp
qed

lemma text_line_dec: "text_line (ascii_bytes (dec_str n))"
  by (simp add: text_line_def no_lf_no_crlf [OF dec_bytes_no_lf]
        utf8_decode_ascii_bytes [OF dec_str_lt128])

lemma utf8_decode_dec: "utf8_decode (ascii_bytes (dec_str n)) = Some (dec_str n)"
  by (rule utf8_decode_ascii_bytes [OF dec_str_lt128])

subsection \<open>Directory lines\<close>

text \<open>The line that \<open>print(#f, f, s)\<close> writes for a file with an ASCII name.\<close>

definition entry_line :: "bytes \<Rightarrow> nat \<Rightarrow> bytes" where
  "entry_line name sz =
     ascii_bytes (dec_str (length name)) @ [CHR 0x09] @ name @ [CHR 0x09]
     @ ascii_bytes (dec_str sz)"

lemma lit_append: "lit (a @ b) = lit a @ lit b"
  by (simp add: lit_def)

lemma lit_Cons: "lit (c # s) = of_char c # lit s"
  by (simp add: lit_def)

lemma ascii_append: "ascii (a @ b) \<longleftrightarrow> ascii a \<and> ascii b"
  by (simp add: ascii_def)

lemma lit_ascii_bytes: "list_all (\<lambda>c. c < 128) s \<Longrightarrow> lit (ascii_bytes s) = s"
  by (induction s) (simp_all add: lit_def ascii_bytes_def)

lemma ascii_ascii_bytes: "list_all (\<lambda>c. c < 128) s \<Longrightarrow> ascii (ascii_bytes s)"
  by (induction s) (simp_all add: ascii_def ascii_bytes_def)

lemma text_line_ascii: "ascii l \<Longrightarrow> CHR 0x0A \<notin> set l \<Longrightarrow> text_line l"
  by (simp add: text_line_def no_lf_no_crlf utf8_decode_ascii)

lemma entry_line_decode:
  assumes "ascii name" and "CHR 0x0A \<notin> set name"
  shows "text_line (entry_line name sz)"
    and "utf8_decode (entry_line name sz)
           = Some (dec_str (length name) @ [9] @ lit name @ [9] @ dec_str sz)"
proof -
  have "ascii [CHR 0x09]" by (simp add: ascii_def)
  with assms(1) have a: "ascii (entry_line name sz)"
    unfolding entry_line_def ascii_append
    by (simp add: ascii_ascii_bytes [OF dec_str_lt128])
  have n: "CHR 0x0A \<notin> set (entry_line name sz)"
    using assms(2) dec_bytes_no_lf [of "length name"] dec_bytes_no_lf [of sz]
    by (simp add: entry_line_def)
  from a n show "text_line (entry_line name sz)" by (rule text_line_ascii)
  show "utf8_decode (entry_line name sz)
           = Some (dec_str (length name) @ [9] @ lit name @ [9] @ dec_str sz)"
    unfolding utf8_decode_ascii [OF a]
    by (simp add: entry_line_def lit_append lit_Cons lit_ascii_bytes [OF dec_str_lt128])
qed

lemma partition_str_first:
  "sep \<notin> set a \<Longrightarrow> partition_str sep (a @ [sep] @ b) = (a, [sep], b)"
proof -
  assume "sep \<notin> set a"
  then have "takeWhile (\<lambda>c. c \<noteq> sep) (a @ [sep] @ b) = a"
    and "dropWhile (\<lambda>c. c \<noteq> sep) (a @ [sep] @ b) = sep # b"
    by (induction a) auto
  then show ?thesis by (simp add: partition_str_def)
qed

lemma dec_str_no_tab: "9 \<notin> set (dec_str n)"
  using dec_str_digits [of n] by (auto simp: list_all_iff is_digit_def)

lemma slice_to_length: "slice_to (int (length a)) (a @ b) = a"
  by (simp add: slice_to_def slice_bound_def)

lemma slice_from_length_Suc: "slice_from (int (length a) + 1) (a @ [c] @ b) = b"
  by (simp add: slice_from_def slice_bound_def nat_add_distrib)

lemma list_files_loop_entries:
  assumes "\<forall>(name, sz)\<in>set entries. ascii name \<and> CHR 0x0A \<notin> set name"
    and "rx ch = concat (map (\<lambda>(name, sz). entry_line name sz @ CRLF) entries) @ rest"
  shows "list_files_loop U (length entries) files ch
           = (Return (fold (\<lambda>(name, sz) m. m(lit name \<mapsto> int sz)) entries files),
              ch\<lparr>rx := rest\<rparr>)"
  using assms
proof (induction entries arbitrary: files ch)
  case Nil
  then show ?case by simp
next
  case (Cons e entries)
  obtain name sz where e: "e = (name, sz)" by (cases e)
  from Cons.prems(1) e have nm: "ascii name" "CHR 0x0A \<notin> set name" by simp_all
  define mid where
    "mid = concat (map (\<lambda>(name, sz). entry_line name sz @ CRLF) entries) @ rest"
  from Cons.prems(2) e have rxc: "rx ch = entry_line name sz @ CRLF @ mid"
    by (simp add: mid_def)
  have rd: "read_response ch
              = (Return (dec_str (length name) @ [9] @ lit name @ [9] @ dec_str sz),
                 ch\<lparr>rx := mid\<rparr>)"
    using read_response_line [OF entry_line_decode(1) [OF nm] rxc]
    by (simp add: entry_line_decode(2) [OF nm])
  have len: "int (length name) = int (length (lit name))" by (simp add: lit_def)
  have step: "list_files_loop U (Suc (length entries)) files ch
                = list_files_loop U (length entries) (files(lit name \<mapsto> int sz))
                    (ch\<lparr>rx := mid\<rparr>)"
    by (simp add: rd and_then_def partition_str_first [OF dec_str_no_tab]
          int_of_str_dec_str len slice_to_length slice_from_length_Suc
          del: append.simps)
  have rest_eq: "list_files_loop U (length entries) (files(lit name \<mapsto> int sz))
                   (ch\<lparr>rx := mid\<rparr>)
          = (Return (fold (\<lambda>(name, sz) m. m(lit name \<mapsto> int sz)) entries
                       (files(lit name \<mapsto> int sz))),
             ch\<lparr>rx := mid\<rparr>\<lparr>rx := rest\<rparr>)"
    using Cons.prems(1) by (intro Cons.IH) (simp_all add: mid_def)
  have upd: "ch\<lparr>rx := mid\<rparr>\<lparr>rx := rest\<rparr> = ch\<lparr>rx := rest\<rparr>" by simp
  have "list_files_loop U (length (e # entries)) files ch
          = list_files_loop U (Suc (length entries)) files ch"
    by (simp only: list.size) simp
  also note step
  also note rest_eq
  finally show ?case
    by (simp only: upd e fold_simps prod.case)
qed

lemma fold_upd_map_of: "fold (\<lambda>(k, v) m. m(k \<mapsto> v)) xs m = m ++ map_of (rev xs)"
proof (induction xs arbitrary: m)
  case Nil
  then show ?case by simp
next
  case (Cons x xs)
  obtain k v where x: "x = (k, v)" by (cases x)
  have "fold (\<lambda>(k, v) m. m(k \<mapsto> v)) (x # xs) m
          = fold (\<lambda>(k, v) m. m(k \<mapsto> v)) xs (m(k \<mapsto> v))"
    by (simp only: x fold_simps prod.case)
  also have "\<dots> = m(k \<mapsto> v) ++ map_of (rev xs)"
    by (rule Cons.IH)
  also have "\<dots> = m ++ map_of (rev (x # xs))"
    by (simp add: x map_of_append)
  finally show ?case .
qed

lemma encodable_lit: "ascii s \<Longrightarrow> encodable (lit s)"
  by (simp add: encodable_def utf8_encode_lit)

lemma ascii_snippets: "ascii count_files_snippet" "ascii list_files_snippet"
  by (simp_all add: ascii_def count_files_snippet_def list_files_snippet_def)

subsection \<open>Commands that hold a \<open>repr\<close>\<close>

lemma encodable_iff: "encodable s \<longleftrightarrow> (\<forall>c\<in>set s. utf8_encode_char c \<noteq> None)"
  by (induction s) (auto simp: encodable_def split: option.splits)

lemma encodable_append: "encodable (a @ b) \<longleftrightarrow> encodable a \<and> encodable b"
  by (auto simp: encodable_iff)

lemma encodable_below_128: "\<forall>c\<in>set s. c < 128 \<Longrightarrow> encodable s"
  by (simp add: encodable_iff utf8_encode_char_def)

lemma hexdigit_below_128: "hexdigit d < 128"
proof -
  have "d mod 16 < length (lit ''0123456789abcdef'')" by (simp add: lit_def)
  then have "hexdigit d \<in> set (lit ''0123456789abcdef'')"
    unfolding hexdigit_def by (rule nth_mem)
  then show ?thesis by (auto simp: lit_def)
qed

lemma hex_digits_below_128: "x \<in> set (hex_digits k c) \<Longrightarrow> x < 128"
  by (auto simp: hex_digits_def hexdigit_below_128)

lemma repr_char_elems:
  assumes "x \<in> set (repr_char U q c)" and "q < 128"
  shows "x < 128 \<or> (x = c \<and> isprintable U c)"
  using assms
  by (auto simp: repr_char_def split: if_splits dest: hex_digits_below_128)

lemma repr_elems:
  assumes "x \<in> set (repr U s)"
  shows "x < 128 \<or> isprintable U x"
proof -
  define q :: nat where "q = (if 39 \<in> set s \<and> 34 \<notin> set s then 34 else 39)"
  have q: "q < 128" by (simp add: q_def)
  from assms have "x = q \<or> (\<exists>c\<in>set s. x \<in> set (repr_char U q c))"
    by (auto simp: repr_def Let_def q_def)
  with q repr_char_elems [OF _ q] show ?thesis by blast
qed

lemma encodable_repr: "wf_db U \<Longrightarrow> encodable (repr U s)"
  unfolding encodable_iff
proof
  fix x
  assume wf: "wf_db U" and "x \<in> set (repr U s)"
  from repr_elems [OF this(2)] show "utf8_encode_char x \<noteq> None"
  proof
    assume "x < 128"
    then show ?thesis by (simp add: utf8_encode_char_def)
  next
    assume "isprintable U x"
    with wf show ?thesis by (simp add: wf_db_def)
  qed
qed

subsection \<open>Blocks of write_file\<close>

text \<open>The requests and errors of \<open>write_file\<close>, and the data that is left after \<open>i\<close> rounds
  of \<open>data = data[block_size:]\<close>.\<close>

abbreviation write_request :: "unicode_db \<Rightarrow> str \<Rightarrow> str" where
  "write_request U block \<equiv> lit ''=file.write('' @ repr U block @ lit '')''"

abbreviation open_w_request :: "unicode_db \<Rightarrow> str \<Rightarrow> str" where
  "open_w_request U filename \<equiv> lit ''=file.open('' @ repr U filename @ lit '', 'w')''"

abbreviation write_failed :: "unicode_db \<Rightarrow> str \<Rightarrow> exn" where
  "write_failed U response \<equiv>
     IOError (lit ''Write failed! (Return value: '' @ repr U response @ lit '')'')"

abbreviation open_w_failed :: exn where
  "open_w_failed \<equiv> IOError (lit ''Could not open file for writing!'')"

fun rest_after :: "int \<Rightarrow> nat \<Rightarrow> str \<Rightarrow> str" where
  "rest_after block_size 0 data = data"
| "rest_after block_size (Suc i) data = rest_after block_size i (slice_from block_size data)"

lemma rest_after_Nil: "rest_after B i [] = []"
  by (induction i) (simp_all add: slice_from_def)

lemma encodable_write_request: "wf_db U \<Longrightarrow> encodable (write_request U block)"
  by (simp add: encodable_append encodable_repr encodable_lit ascii_def)

lemma encodable_open_w_request: "wf_db U \<Longrightarrow> encodable (open_w_request U filename)"
  by (simp add: encodable_append encodable_repr encodable_lit ascii_def)

lemma text_line_true: "text_line ''true''" "utf8_decode ''true'' = Some (lit ''true'')"
  by (simp_all add: text_line_def lit_def)

lemma write_file_loop_round:
  assumes "wf_db U" and "data \<noteq> []" and "text_line e"
    and "\<not> has_crlf rb" and "utf8_decode rb = Some r"
    and "rx ch = e @ CRLF @ rb @ CRLF @ rest"
  shows "write_file_loop U data B ch =
           (let ch' = ch\<lparr>rx := rest,
                         tx := tx ch @ [wire (write_request U (slice_to B data))]\<rparr>
            in if r \<noteq> lit ''true'' then (Raise (write_failed U r), ch')
               else write_file_loop U (slice_from B data) B ch')"
proof -
  define ch1 where
    "ch1 = ch\<lparr>rx := rb @ CRLF @ rest,
               tx := tx ch @ [wire (write_request U (slice_to B data))]\<rparr>"
  have s: "send_command (write_request U (slice_to B data)) ch = (Return (), ch1)"
    unfolding ch1_def
    by (rule send_command_echo [OF encodable_write_request [OF assms(1)] assms(3)])
       (simp add: assms(6))
  have r: "read_response ch1 = (Return r, ch1\<lparr>rx := rest\<rparr>)"
    using read_response_text [OF assms(4), of ch1 rest] assms(5) by (simp add: ch1_def)
  have fin: "ch1\<lparr>rx := rest\<rparr>
               = ch\<lparr>rx := rest, tx := tx ch @ [wire (write_request U (slice_to B data))]\<rparr>"
    by (simp add: ch1_def)
  show ?thesis
    by (subst write_file_loop.simps)
       (simp add: assms(2) s r fin and_then_def Let_def del: append.simps)
qed

lemma write_file_loop_rejected:
  assumes "wf_db U" and "rest_after B (length es) data \<noteq> []"
    and "\<forall>e\<in>set es. text_line e" and "text_line ek"
    and "\<not> has_crlf rb" and "utf8_decode rb = Some r" and "r \<noteq> lit ''true''"
    and "rx ch = concat (map (\<lambda>e. e @ CRLF @ ''true'' @ CRLF) es)
                 @ ek @ CRLF @ rb @ CRLF @ rest"
  shows "write_file_loop U data B ch
           = (Raise (write_failed U r),
              ch\<lparr>rx := rest,
                 tx := tx ch @ map (\<lambda>i. wire (write_request U (slice_to B (rest_after B i data))))
                                 [0..<Suc (length es)]\<rparr>)"
  using assms(2,3,8)
proof (induction es arbitrary: data ch)
  case Nil
  then have "data \<noteq> []" and "rx ch = ek @ CRLF @ rb @ CRLF @ rest" by simp_all
  from write_file_loop_round [OF assms(1) this(1) assms(4,5,6) this(2)] assms(7)
  show ?case by simp
next
  case (Cons e es)
  from Cons.prems(1) have ne: "data \<noteq> []"
    using rest_after_Nil by fastforce
  define mid where
    "mid = concat (map (\<lambda>e. e @ CRLF @ ''true'' @ CRLF) es) @ ek @ CRLF @ rb @ CRLF @ rest"
  define ch' where
    "ch' = ch\<lparr>rx := mid, tx := tx ch @ [wire (write_request U (slice_to B data))]\<rparr>"
  from Cons.prems have e: "text_line e" and es: "\<forall>e\<in>set es. text_line e"
    and rxc: "rx ch = e @ CRLF @ ''true'' @ CRLF @ mid"
    and ra: "rest_after B (length es) (slice_from B data) \<noteq> []"
    by (simp_all add: mid_def)
  have "\<not> has_crlf ''true''" by simp
  from write_file_loop_round [OF assms(1) ne e this text_line_true(2) rxc]
  have step: "write_file_loop U data B ch = write_file_loop U (slice_from B data) B ch'"
    by (simp add: ch'_def)
  have ih: "write_file_loop U (slice_from B data) B ch'
              = (Raise (write_failed U r),
                 ch'\<lparr>rx := rest,
                     tx := tx ch' @ map (\<lambda>i. wire (write_request U
                                  (slice_to B (rest_after B i (slice_from B data)))))
                                 [0..<Suc (length es)]\<rparr>)"
    by (rule Cons.IH [OF ra es]) (simp add: ch'_def mid_def)
  have "map (\<lambda>i. wire (write_request U (slice_to B (rest_after B i data))))
          [0..<Suc (length (e # es))]
        = wire (write_request U (slice_to B data))
          # map (\<lambda>i. wire (write_request U (slice_to B (rest_after B i (slice_from B data)))))
              [0..<Suc (length es)]"
    by (simp add: map_upt_Suc del: upt_Suc)
  with step ih show ?case by (simp add: ch'_def del: upt_Suc)
qed

lemma write_file_open:
  assumes "wf_db U" and "text_line e1" and "text_line e2"
    and "\<not> has_crlf ob" and "utf8_decode ob = Some opened"
    and "rx ch = e1 @ CRLF @ e2 @ CRLF @ ob @ CRLF @ rest"
  shows "write_file U filename data B ch =
           (let ch3 = ch\<lparr>rx := rest,
                         tx := tx ch @ [wire (lit ''file.close()''),
                                        wire (open_w_request U filename)]\<rparr>
            in if opened = lit ''nil'' then (Raise open_w_failed, ch3)
               else and_then (write_file_loop U data B ch3)
                      (\<lambda>_ ch4. send_command (lit ''file.close()'') ch4))"
proof -
  define ch1 where
    "ch1 = ch\<lparr>rx := e2 @ CRLF @ ob @ CRLF @ rest, tx := tx ch @ [wire (lit ''file.close()'')]\<rparr>"
  define ch2 where
    "ch2 = ch1\<lparr>rx := ob @ CRLF @ rest, tx := tx ch1 @ [wire (open_w_request U filename)]\<rparr>"
  have enc: "encodable (lit ''file.close()'')"
    by (rule encodable_lit) (simp add: ascii_def)
  have s1: "send_command (lit ''file.close()'') ch = (Return (), ch1)"
    unfolding ch1_def
    by (rule send_command_echo [OF enc assms(2)]) (simp add: assms(6))
  have s2: "send_command (open_w_request U filename) ch1 = (Return (), ch2)"
    unfolding ch2_def
    by (rule send_command_echo [OF encodable_open_w_request [OF assms(1)] assms(3)])
       (simp add: ch1_def)
  have r: "read_response ch2 = (Return opened, ch2\<lparr>rx := rest\<rparr>)"
    using read_response_text [OF assms(4), of ch2 rest] assms(5) by (simp add: ch2_def)
  have fin: "ch2\<lparr>rx := rest\<rparr>
               = ch\<lparr>rx := rest,
                    tx := tx ch @ [wire (lit ''file.close()''),
                                   wire (open_w_request U filename)]\<rparr>"
    by (simp add: ch2_def ch1_def)
  show ?thesis
    by (simp add: write_file_def s1 s2 r fin and_then_def Let_def del: append.simps)
qed

lemma text_line_nil: "\<not> has_crlf ''nil''" "utf8_decode ''nil'' = Some (lit ''nil'')"
  by (simp_all add: lit_def)

subsection \<open>Concrete inputs\<close>

text \<open>A character database that knows no character outside ASCII. The concrete inputs
  below are ASCII, for which \<open>repr\<close> and \<open>int\<close> never consult the database.\<close>

definition no_unicode :: unicode_db where
  "no_unicode = \<lparr>isprintable = (\<lambda>_. False), isspace = (\<lambda>_. False),
                  todecimal = (\<lambda>_. None)\<rparr>"

text \<open>The exception a call ended with, if it raised one.\<close>

fun raised :: "'a outcome \<times> serial \<Rightarrow> exn option" where
  "raised (Raise e, ch) = Some e"
| "raised (r, ch) = None"

subsection \<open>What the operations can raise, and what they write\<close>

















abbreviation size_request :: "unicode_db \<Rightarrow> str \<Rightarrow> str" where
  "size_request U filename \<equiv> lit ''=file.list()['' @ repr U filename @ lit '']''"

abbreviation open_r_request :: "unicode_db \<Rightarrow> str \<Rightarrow> str" where
  "open_r_request U filename \<equiv> lit ''=file.open('' @ repr U filename @ lit '', 'r')''"

abbreviation open_r_failed :: exn where
  "open_r_failed \<equiv> IOError (lit ''Could not open file!'')"

lemma encodable_read_requests:
  assumes "wf_db U"
  shows "encodable (size_request U filename)" and "encodable (open_r_request U filename)"
  using assms by (simp_all add: encodable_append encodable_repr encodable_lit ascii_def)

lemma encodable_close: "encodable (lit ''file.close()'')"
  by (rule encodable_lit) (simp add: ascii_def)

lemma read_file_open:
  assumes "wf_db U" and "text_line e1" and "text_line e2" and "text_line e3"
    and "\<not> has_crlf sb" and "utf8_decode sb = Some sz"
    and "sz \<noteq> lit ''nil''" and "int_of_str U sz = Some n"
    and "\<not> has_crlf ob" and "utf8_decode ob = Some opened"
    and "rx ch = e1 @ CRLF @ e2 @ CRLF @ sb @ CRLF @ e3 @ CRLF @ ob @ CRLF @ rest"
  shows "read_file U filename B ch =
           (let ch5 = ch\<lparr>rx := rest,
                         tx := tx ch @ [wire (lit ''file.close()''),
                                        wire (size_request U filename),
                                        wire (open_r_request U filename)]\<rparr>
            in if opened \<noteq> lit ''true'' then (Raise open_r_failed, ch5)
               else and_then (read_file_loop n B [] ch5)
                      (\<lambda>data ch6.
                         case utf8_decode data of
                           None \<Rightarrow> (Raise UnicodeDecodeError, ch6)
                         | Some text \<Rightarrow> (Return text, ch6)))"
proof -
  define ch1 where
    "ch1 = ch\<lparr>rx := e2 @ CRLF @ sb @ CRLF @ e3 @ CRLF @ ob @ CRLF @ rest,
               tx := tx ch @ [wire (lit ''file.close()'')]\<rparr>"
  define ch2 where
    "ch2 = ch1\<lparr>rx := sb @ CRLF @ e3 @ CRLF @ ob @ CRLF @ rest,
                tx := tx ch1 @ [wire (size_request U filename)]\<rparr>"
  define ch3 where "ch3 = ch2\<lparr>rx := e3 @ CRLF @ ob @ CRLF @ rest\<rparr>"
  define ch4 where
    "ch4 = ch3\<lparr>rx := ob @ CRLF @ rest, tx := tx ch3 @ [wire (open_r_request U filename)]\<rparr>"
  have s1: "send_command (lit ''file.close()'') ch = (Return (), ch1)"
    unfolding ch1_def
    by (rule send_command_echo [OF encodable_close assms(2)]) (simp add: assms(11))
  have s2: "send_command (size_request U filename) ch1 = (Return (), ch2)"
    unfolding ch2_def
    by (rule send_command_echo [OF encodable_read_requests(1) [OF assms(1)] assms(3)])
       (simp add: ch1_def)
  have r1: "read_response ch2 = (Return sz, ch3)"
    using read_response_text [OF assms(5), of ch2 "e3 @ CRLF @ ob @ CRLF @ rest"] assms(6)
    by (simp add: ch2_def ch3_def)
  have s3: "send_command (open_r_request U filename) ch3 = (Return (), ch4)"
    unfolding ch4_def
    by (rule send_command_echo [OF encodable_read_requests(2) [OF assms(1)] assms(4)])
       (simp add: ch3_def)
  have r2: "read_response ch4 = (Return opened, ch4\<lparr>rx := rest\<rparr>)"
    using read_response_text [OF assms(9), of ch4 rest] assms(10) by (simp add: ch4_def)
  have fin: "ch4\<lparr>rx := rest\<rparr>
               = ch\<lparr>rx := rest,
                    tx := tx ch @ [wire (lit ''file.close()''),
                                   wire (size_request U filename),
                                   wire (open_r_request U filename)]\<rparr>"
    by (simp add: ch4_def ch3_def ch2_def ch1_def)
  show ?thesis
    by (simp add: read_file_def s1 s2 r1 s3 r2 fin assms(7,8) and_then_def Let_def
             del: append.simps)
qed

subsection \<open>One block of read_file\<close>

abbreviation read_request :: "int \<Rightarrow> str" where
  "read_request block \<equiv> lit ''uart.write(0, file.read('' @ str_of_int block @ lit ''))''"

lemma encodable_read_request: "encodable (read_request (int n))"
proof -
  have "\<forall>c\<in>set (dec_str n). c < 128"
    using dec_str_lt128 [of n] by (simp add: list_all_iff)
  then have "encodable (dec_str n)" by (rule encodable_below_128)
  then show ?thesis
    by (simp add: str_of_int_def encodable_append encodable_lit ascii_def)
qed

lemma dec_str_not_nil: "dec_str n \<noteq> lit ''nil''"
proof
  assume "dec_str n = lit ''nil''"
  with dec_str_digits [of n] have "list_all is_digit (lit ''nil'')" by simp
  then show False by (simp add: lit_def is_digit_def)
qed

lemma read_file_loop_one_block:
  assumes "0 < n" and "length content = n" and "text_line e"
    and "rx ch = e @ CRLF @ content @ rest"
  shows "read_file_loop (int n) (int n) [] ch
           = (Return content,
              ch\<lparr>rx := rest, tx := tx ch @ [wire (read_request (int n))]\<rparr>)"
proof -
  define ch1 where
    "ch1 = ch\<lparr>rx := content @ rest, tx := tx ch @ [wire (read_request (int n))]\<rparr>"
  have s: "send_command (read_request (int n)) ch = (Return (), ch1)"
    unfolding ch1_def
    by (rule send_command_echo [OF encodable_read_request assms(3)]) (simp add: assms(4))
  have r: "serial_read (int n) ch1 = (Return content, ch1\<lparr>rx := rest\<rparr>)"
    using assms(1,2) by (simp add: serial_read_def ch1_def)
  have z: "read_file_loop 0 (int n) ([] @ content) (ch1\<lparr>rx := rest\<rparr>)
             = (Return content, ch1\<lparr>rx := rest\<rparr>)"
    by (subst read_file_loop.simps) simp
  have fin: "ch1\<lparr>rx := rest\<rparr>
               = ch\<lparr>rx := rest, tx := tx ch @ [wire (read_request (int n))]\<rparr>"
    by (simp add: ch1_def)
  from assms(1) show ?thesis
    by (subst read_file_loop.simps)
       (simp add: Let_def s r z and_then_def fin [symmetric] del: append.simps)
qed

section \<open>The claims\<close>

text \<open>C8, as the code has it. \<open>read_line\<close> compares \<open>data[-2:]\<close> with the line ending
  whatever its length, so a three-byte ending is never found: on the input
  \<open>ba-ba-black sheep bar baz\<close> with the ending \<open>bar\<close> the call reads every byte, past the
  ending, and then waits for more. The claim has it return \<open>ba-ba-black sheep \<close> and
  leave \<open> baz\<close> unread.\<close>

theorem read_line_three_byte_ending_blocks:
  "read_line (PyStr (lit ''bar'')) 
     \<lparr>rx = ''ba-ba-black sheep bar baz'', tx = [], fault = False\<rparr>
     = (Blocks, \<lparr>rx = [], tx = [], fault = False\<rparr>)"
  by code_simp

text \<open>C4, as the code has it. \<open>dofile\<close> passes the set \<open>{"> "}\<close> to \<open>read_line\<close>, whose first
  step \<open>line_ending.encode("utf-8")\<close> raises AttributeError: for an existing file the
  execute statement is sent and its echo absorbed, then the call raises, and the output
  \<open>hello!\<close> and the prompt stay unread. The claim has it return the output.\<close>

theorem dofile_existing_file_raises:
  "dofile no_unicode (lit ''test.lua'')
     \<lparr>rx = ''=file.list()['test.lua']'' @ CRLF @ ''123'' @ CRLF
            @ ''dofile('test.lua')'' @ CRLF @ ''hello!'' @ CRLF @ ''> '',
      tx = [], fault = False\<rparr>
   = (Raise AttributeError,
      \<lparr>rx = ''hello!'' @ CRLF @ ''> '',
       tx = [''=file.list()['test.lua']'' @ CRLF, ''dofile('test.lua')'' @ CRLF],
       fault = False\<rparr>)"
  by code_simp

text \<open>C1, as the code has it. The block length is \<open>max(size, block_size)\<close>, not the
  minimum: a 3-byte file read with block size 2 is asked for in one block of 3 bytes
  (\<open>uart.write(0, file.read(3))\<close> is the only block request written), where the claim
  has two requests, of 2 bytes and of 1 byte.\<close>

theorem read_file_one_block_of_three:
  "read_file no_unicode (lit ''test.txt'') 2
     \<lparr>rx = ''file.close()'' @ CRLF
            @ ''=file.list()['test.txt']'' @ CRLF @ ''3'' @ CRLF
            @ ''=file.open('test.txt', 'r')'' @ CRLF @ ''true'' @ CRLF
            @ ''uart.write(0, file.read(3))'' @ CRLF @ [CHR 0x01, CHR 0x02, CHR 0x03],
      tx = [], fault = False\<rparr>
   = (Return [1, 2, 3],
      \<lparr>rx = [],
       tx = [''file.close()'' @ CRLF,
             ''=file.list()['test.txt']'' @ CRLF,
             ''=file.open('test.txt', 'r')'' @ CRLF,
             ''uart.write(0, file.read(3))'' @ CRLF], fault = False\<rparr>)"
  by code_simp

text \<open>C2, as the code has it. The literal that \<open>write_file\<close> embeds is Python's \<open>repr\<close> of
  the block. For the one-character block \<open>'\<close> the request written is
  \<open>=file.write("'")\<close>: the literal is double-quoted and the quote is not escaped, where
  the claim has a single-quoted literal.\<close>

theorem write_file_quote_literal:
  "write_file no_unicode (lit ''test.txt'') [39] 64
     \<lparr>rx = ''file.close()'' @ CRLF
            @ ''=file.open('test.txt', 'w')'' @ CRLF @ ''true'' @ CRLF
            @ ''=file.write('' @ [CHR 0x22, CHR 0x27, CHR 0x22] @ '')'' @ CRLF @ ''true'' @ CRLF
            @ ''file.close()'' @ CRLF,
      tx = [], fault = False\<rparr>
   = (Return (),
      \<lparr>rx = [],
       tx = [''file.close()'' @ CRLF,
             ''=file.open('test.txt', 'w')'' @ CRLF,
             ''=file.write('' @ [CHR 0x22, CHR 0x27, CHR 0x22] @ '')'' @ CRLF,
             ''file.close()'' @ CRLF], fault = False\<rparr>)"
  by code_simp

text \<open>C5, as the code has it. For the block of the single character 0x1F the request
  written is \<open>=file.write('\x1f')\<close>, with lowercase hex digits, where the claim has
  \<open>\x1F\<close>.\<close>

theorem write_file_lowercase_hex:
  "write_file no_unicode (lit ''test.txt'') [31] 64
     \<lparr>rx = ''file.close()'' @ CRLF
            @ ''=file.open('test.txt', 'w')'' @ CRLF @ ''true'' @ CRLF
            @ ''=file.write('' @ [CHR 0x27, CHR 0x5C] @ ''x1f')'' @ CRLF @ ''true'' @ CRLF
            @ ''file.close()'' @ CRLF,
      tx = [], fault = False\<rparr>
   = (Return (),
      \<lparr>rx = [],
       tx = [''file.close()'' @ CRLF,
             ''=file.open('test.txt', 'w')'' @ CRLF,
             ''=file.write('' @ [CHR 0x27, CHR 0x5C] @ ''x1f')'' @ CRLF,
             ''file.close()'' @ CRLF], fault = False\<rparr>)"
  by code_simp

text \<open>C3, as the code has it. The body lines of the claim's example have no tab between
  the name and the size; the code skips one character after the name
  (\<open>line[filename_length + 1:]\<close>), so the first line gives the size 23 and the second
  line leaves the empty string for \<open>int\<close>, which raises ValueError.\<close>

theorem list_files_example_lines_fail:
  "raised (list_files no_unicode
     \<lparr>rx = count_files_snippet @ CRLF @ ''2'' @ CRLF @ list_files_snippet @ CRLF
            @ ''7'' @ [CHR 0x09] @ ''foo.txt123'' @ CRLF
            @ ''5'' @ [CHR 0x09] @ [CHR 0x09] @ ''.tab0'' @ CRLF,
      tx = [], fault = False\<rparr>)
   = Some ValueError"
  by code_simp

text \<open>C3, amended. On a port that sends the echo of the count statement, the count, the
  echo of the listing statement and then one line \<open>N TAB name TAB size\<close> for each of
  \<open>entries\<close> (ASCII names without line feed, \<open>N\<close> the length of the name), \<open>list_files\<close>
  reads exactly these lines, leaves what follows unread, and returns the mapping from
  each name to its size, a later line winning over an earlier one for the same name.\<close>

theorem list_files_parses:
  assumes "text_line e1" and "text_line e2"
    and "\<forall>(name, sz)\<in>set entries. ascii name \<and> CHR 0x0A \<notin> set name"
    and "rx ch = e1 @ CRLF @ ascii_bytes (dec_str (length entries)) @ CRLF @ e2 @ CRLF
                 @ concat (map (\<lambda>(name, sz). entry_line name sz @ CRLF) entries) @ rest"
  shows "list_files U ch
           = (Return (map_of (rev (map (\<lambda>(name, sz). (lit name, int sz)) entries))),
              ch\<lparr>rx := rest,
                 tx := tx ch @ [wire (lit count_files_snippet),
                                wire (lit list_files_snippet)]\<rparr>)"
proof -
  define body where
    "body = concat (map (\<lambda>(name, sz). entry_line name sz @ CRLF) entries) @ rest"
  define ch1 where
    "ch1 = ch\<lparr>rx := ascii_bytes (dec_str (length entries)) @ CRLF @ e2 @ CRLF @ body,
               tx := tx ch @ [wire (lit count_files_snippet)]\<rparr>"
  define ch2 where "ch2 = ch1\<lparr>rx := e2 @ CRLF @ body\<rparr>"
  define ch3 where
    "ch3 = ch2\<lparr>rx := body, tx := tx ch2 @ [wire (lit list_files_snippet)]\<rparr>"
  have s1: "send_command (lit count_files_snippet) ch = (Return (), ch1)"
    unfolding ch1_def
    by (rule send_command_echo [OF encodable_lit [OF ascii_snippets(1)] assms(1)])
       (simp add: assms(4) body_def)
  have r1: "read_response ch1 = (Return (dec_str (length entries)), ch2)"
    using read_response_line [OF text_line_dec, of ch1 "length entries" "e2 @ CRLF @ body"]
    by (simp add: ch1_def ch2_def utf8_decode_dec)
  have s2: "send_command (lit list_files_snippet) ch2 = (Return (), ch3)"
    unfolding ch3_def
    by (rule send_command_echo [OF encodable_lit [OF ascii_snippets(2)] assms(2)])
       (simp add: ch2_def)
  have lp: "list_files_loop U (length entries) Map.empty ch3
              = (Return (fold (\<lambda>(name, sz) m. m(lit name \<mapsto> int sz)) entries Map.empty),
                 ch3\<lparr>rx := rest\<rparr>)"
    by (rule list_files_loop_entries [OF assms(3)]) (simp add: ch3_def body_def)
  have fm: "fold (\<lambda>(name, sz) m. m(lit name \<mapsto> int sz)) entries Map.empty
              = map_of (rev (map (\<lambda>(name, sz). (lit name, int sz)) entries))"
  proof -
    have "(\<lambda>(name, sz) m. m(lit name \<mapsto> int sz))
            = (\<lambda>(k, v) m. m(k \<mapsto> v)) \<circ> (\<lambda>(name :: bytes, sz :: nat). (lit name, int sz))"
      by (auto simp: fun_eq_iff)
    then show ?thesis
      using fold_upd_map_of [of "map (\<lambda>(name, sz). (lit name, int sz)) entries" Map.empty]
      by (simp add: fold_map rev_map)
  qed
  have fin: "ch3\<lparr>rx := rest\<rparr>
               = ch\<lparr>rx := rest,
                    tx := tx ch @ [wire (lit count_files_snippet),
                                   wire (lit list_files_snippet)]\<rparr>"
    by (simp add: ch3_def ch2_def ch1_def)
  show ?thesis
    unfolding list_files_def
    by (simp only: s1 r1 s2 lp fm fin and_then_def prod.case outcome.case
          int_of_str_dec_str option.case nat_int)
qed

theorem list_files_parses_witness:
  "list_files no_unicode
     \<lparr>rx = count_files_snippet @ CRLF @ ''2'' @ CRLF @ list_files_snippet @ CRLF
            @ ''7'' @ [CHR 0x09] @ ''foo.txt'' @ [CHR 0x09] @ ''123'' @ CRLF
            @ ''5'' @ [CHR 0x09] @ [CHR 0x09] @ ''.tab'' @ [CHR 0x09] @ ''0'' @ CRLF
            @ ''> '',
      tx = [], fault = False\<rparr>
   = (Return (map_of [(lit (CHR 0x09 # ''.tab''), 0), (lit ''foo.txt'', 123)]),
      \<lparr>rx = ''> '', tx = [count_files_snippet @ CRLF, list_files_snippet @ CRLF],
       fault = False\<rparr>)"
proof -
  let ?entries = "[(''foo.txt'', 123 :: nat), (CHR 0x09 # ''.tab'', 0)]"
  let ?ch = "\<lparr>rx = count_files_snippet @ CRLF @ ''2'' @ CRLF @ list_files_snippet @ CRLF
            @ ''7'' @ [CHR 0x09] @ ''foo.txt'' @ [CHR 0x09] @ ''123'' @ CRLF
            @ ''5'' @ [CHR 0x09] @ [CHR 0x09] @ ''.tab'' @ [CHR 0x09] @ ''0'' @ CRLF
            @ ''> '',
      tx = [], fault = False\<rparr>"
  have h1: "text_line count_files_snippet" and h2: "text_line list_files_snippet"
    by code_simp+
  have h3: "\<forall>(name, sz)\<in>set ?entries. ascii name \<and> CHR 0x0A \<notin> set name"
    by (simp add: ascii_def)
  have h4: "rx ?ch = count_files_snippet @ CRLF @ ascii_bytes (dec_str (length ?entries))
                 @ CRLF @ list_files_snippet @ CRLF
                 @ concat (map (\<lambda>(name, sz). entry_line name sz @ CRLF) ?entries) @ ''> ''"
    by code_simp
  have w: "wire (lit count_files_snippet) = count_files_snippet @ CRLF"
    "wire (lit list_files_snippet) = list_files_snippet @ CRLF"
    by code_simp+
  from list_files_parses [OF h1 h2 h3 h4, of no_unicode] show ?thesis
    by (simp add: w)
qed

text \<open>C7. In \<open>restart\<close> a UnicodeDecodeError of the second prompt-terminated read is
  discarded and the call returns. Every other exception of that read, every exception of
  the first prompt-terminated read (a UnicodeDecodeError too) and every exception of
  \<open>send_command\<close> ends \<open>restart\<close> with that exception.\<close>

theorem restart_failures:
  "(send_command (lit ''node.restart()'') ch = (Return (), ch1)
      \<and> read_line (PyStr (lit ''> '')) ch1 = (Return l1, ch2)
      \<and> read_line (PyStr (lit ''> '')) ch2 = (Raise UnicodeDecodeError, ch3)
    \<longrightarrow> restart ch = (Return (), ch3))
   \<and> (send_command (lit ''node.restart()'') ch = (Return (), ch1)
      \<and> read_line (PyStr (lit ''> '')) ch1 = (Return l1, ch2)
      \<and> read_line (PyStr (lit ''> '')) ch2 = (Raise e, ch3)
      \<and> e \<noteq> UnicodeDecodeError
    \<longrightarrow> restart ch = (Raise e, ch3))
   \<and> (send_command (lit ''node.restart()'') ch = (Return (), ch1)
      \<and> read_line (PyStr (lit ''> '')) ch1 = (Raise e, ch2)
    \<longrightarrow> restart ch = (Raise e, ch2))
   \<and> (send_command (lit ''node.restart()'') ch = (Raise e, ch1)
    \<longrightarrow> restart ch = (Raise e, ch1))"
  by (cases e) (simp_all add: restart_def and_then_def)

theorem restart_failures_witness:
  "restart \<lparr>rx = ''node.restart()'' @ CRLF @ ''> ''
                   @ [CHR 0xDE, CHR 0xAD, CHR 0xBE, CHR 0xEF, CHR 0xFF] @ CRLF @ CRLF
                   @ ''NodeMCU [some version]'' @ CRLF @ ''> '',
            tx = [], fault = False\<rparr>
     = (Return (), \<lparr>rx = [], tx = [''node.restart()'' @ CRLF], fault = False\<rparr>)
   \<and> restart \<lparr>rx = ''node.restart()'' @ CRLF @ ''> '' @ ''NodeMCU'',
              tx = [], fault = True\<rparr>
     = (Raise SerialException,
        \<lparr>rx = [], tx = [''node.restart()'' @ CRLF], fault = True\<rparr>)
   \<and> restart \<lparr>rx = ''node.restart()'' @ CRLF @ [CHR 0xFF, CHR 0xFE] @ ''> ''
                     @ ''NodeMCU'' @ CRLF @ ''> '',
              tx = [], fault = False\<rparr>
     = (Raise UnicodeDecodeError,
        \<lparr>rx = ''NodeMCU'' @ CRLF @ ''> '', tx = [''node.restart()'' @ CRLF],
         fault = False\<rparr>)
   \<and> restart \<lparr>rx = [CHR 0xFF, CHR 0xFE] @ ''node.restart()'' @ CRLF @ ''> '' @ ''> '',
              tx = [], fault = False\<rparr>
     = (Raise UnicodeDecodeError,
        \<lparr>rx = ''> '' @ ''> '', tx = [''node.restart()'' @ CRLF], fault = False\<rparr>)"
proof -
  let ?A = "\<lparr>rx = ''node.restart()'' @ CRLF @ ''> ''
                   @ [CHR 0xDE, CHR 0xAD, CHR 0xBE, CHR 0xEF, CHR 0xFF] @ CRLF @ CRLF
                   @ ''NodeMCU [some version]'' @ CRLF @ ''> '',
            tx = [], fault = False\<rparr>"
  let ?A1 = "\<lparr>rx = ''> '' @ [CHR 0xDE, CHR 0xAD, CHR 0xBE, CHR 0xEF, CHR 0xFF] @ CRLF @ CRLF
                   @ ''NodeMCU [some version]'' @ CRLF @ ''> '',
            tx = [''node.restart()'' @ CRLF], fault = False\<rparr>"
  let ?A2 = "\<lparr>rx = [CHR 0xDE, CHR 0xAD, CHR 0xBE, CHR 0xEF, CHR 0xFF] @ CRLF @ CRLF
                   @ ''NodeMCU [some version]'' @ CRLF @ ''> '',
            tx = [''node.restart()'' @ CRLF], fault = False\<rparr>"
  let ?A3 = "\<lparr>rx = [], tx = [''node.restart()'' @ CRLF], fault = False\<rparr>"
  have a1: "send_command (lit ''node.restart()'') ?A = (Return (), ?A1)"
    and a2: "read_line (PyStr (lit ''> '')) ?A1 = (Return [], ?A2)"
    and a3: "read_line (PyStr (lit ''> '')) ?A2 = (Raise UnicodeDecodeError, ?A3)"
    by code_simp+
  have A: "restart ?A = (Return (), ?A3)"
    using restart_failures [of ?A ?A1 "[]" ?A2 ?A3] a1 a2 a3 by blast
  let ?B = "\<lparr>rx = ''node.restart()'' @ CRLF @ ''> '' @ ''NodeMCU'',
              tx = [], fault = True\<rparr>"
  let ?B1 = "\<lparr>rx = ''> '' @ ''NodeMCU'',
              tx = [''node.restart()'' @ CRLF], fault = True\<rparr>"
  let ?B2 = "\<lparr>rx = ''NodeMCU'',
              tx = [''node.restart()'' @ CRLF], fault = True\<rparr>"
  let ?B3 = "\<lparr>rx = [], tx = [''node.restart()'' @ CRLF], fault = True\<rparr>"
  have b1: "send_command (lit ''node.restart()'') ?B = (Return (), ?B1)"
    and b2: "read_line (PyStr (lit ''> '')) ?B1 = (Return [], ?B2)"
    and b3: "read_line (PyStr (lit ''> '')) ?B2 = (Raise SerialException, ?B3)"
    by code_simp+
  have B: "restart ?B = (Raise SerialException, ?B3)"
    using restart_failures [of ?B ?B1 "[]" ?B2 ?B3 SerialException] b1 b2 b3 by simp
  let ?C = "\<lparr>rx = ''node.restart()'' @ CRLF @ [CHR 0xFF, CHR 0xFE] @ ''> ''
                     @ ''NodeMCU'' @ CRLF @ ''> '',
              tx = [], fault = False\<rparr>"
  let ?C1 = "\<lparr>rx = [CHR 0xFF, CHR 0xFE] @ ''> '' @ ''NodeMCU'' @ CRLF @ ''> '',
              tx = [''node.restart()'' @ CRLF], fault = False\<rparr>"
  let ?C2 = "\<lparr>rx = ''NodeMCU'' @ CRLF @ ''> '', tx = [''node.restart()'' @ CRLF],
              fault = False\<rparr>"
  have c1: "send_command (lit ''node.restart()'') ?C = (Return (), ?C1)"
    and c2: "read_line (PyStr (lit ''> '')) ?C1 = (Raise UnicodeDecodeError, ?C2)"
    by code_simp+
  have C: "restart ?C = (Raise UnicodeDecodeError, ?C2)"
    using restart_failures [of ?C ?C1 _ ?C2 _ UnicodeDecodeError] c1 c2 by simp
  let ?D = "\<lparr>rx = [CHR 0xFF, CHR 0xFE] @ ''node.restart()'' @ CRLF @ ''> '' @ ''> '',
              tx = [], fault = False\<rparr>"
  let ?D1 = "\<lparr>rx = ''> '' @ ''> '', tx = [''node.restart()'' @ CRLF], fault = False\<rparr>"
  have d1: "send_command (lit ''node.restart()'') ?D = (Raise UnicodeDecodeError, ?D1)"
    by code_simp
  have D: "restart ?D = (Raise UnicodeDecodeError, ?D1)"
    using restart_failures [of ?D ?D1 _ _ _ UnicodeDecodeError] d1 by simp
  from A B C D show ?thesis by (intro conjI)
qed

text \<open>C6, as the code has it. \<open>read_line\<close> decodes every response as UTF-8 before
  \<open>write_file\<close> compares it: a write-block response that is not valid UTF-8 (here the
  single byte 0xFF) differs from \<open>true\<close>, yet \<open>write_file\<close> ends with UnicodeDecodeError,
  not with the write error.\<close>

theorem write_file_undecodable_response:
  "write_file no_unicode (lit ''test.txt'') (lit ''1234'') 64
     \<lparr>rx = ''file.close()'' @ CRLF @ ''=file.open('test.txt', 'w')'' @ CRLF
            @ ''true'' @ CRLF
            @ ''=file.write('1234')'' @ CRLF @ [CHR 0xFF] @ CRLF,
      tx = [], fault = False\<rparr>
   = (Raise UnicodeDecodeError,
      \<lparr>rx = [],
       tx = [''file.close()'' @ CRLF, ''=file.open('test.txt', 'w')'' @ CRLF,
             ''=file.write('1234')'' @ CRLF],
       fault = False\<rparr>)"
  by code_simp

text \<open>C6, amended. The port sends the echo of \<open>file.close()\<close>, the echo of the open
  request (each echo a line of UTF-8 text) and then the response to the open request. If
  that response is \<open>nil\<close>,
  \<open>write_file\<close> raises the file-open error and has written the close and the open request
  only: no write-block request. If the open succeeds and, after any number of accepted
  blocks (response \<open>true\<close>), a write-block response decodes as UTF-8 to a text \<open>r\<close> that is
  not exactly \<open>true\<close>, \<open>write_file\<close> raises the write error that carries \<open>repr(r)\<close>,
  having written the requests up to that block.\<close>

theorem write_file_errors:
  assumes "wf_db U" and "text_line e1" and "text_line e2"
  shows "(rx ch = e1 @ CRLF @ e2 @ CRLF @ ''nil'' @ CRLF @ rest
          \<longrightarrow> write_file U filename data B ch
                = (Raise open_w_failed,
                   ch\<lparr>rx := rest,
                      tx := tx ch @ [wire (lit ''file.close()''),
                                     wire (open_w_request U filename)]\<rparr>))
       \<and> (\<not> has_crlf ob \<and> utf8_decode ob = Some opened \<and> opened \<noteq> lit ''nil''
          \<and> rest_after B (length es) data \<noteq> []
          \<and> (\<forall>e\<in>set es. text_line e) \<and> text_line ek
          \<and> \<not> has_crlf rb \<and> utf8_decode rb = Some r \<and> r \<noteq> lit ''true''
          \<and> rx ch = e1 @ CRLF @ e2 @ CRLF @ ob @ CRLF
                     @ concat (map (\<lambda>e. e @ CRLF @ ''true'' @ CRLF) es)
                     @ ek @ CRLF @ rb @ CRLF @ rest
          \<longrightarrow> write_file U filename data B ch
                = (Raise (write_failed U r),
                   ch\<lparr>rx := rest,
                      tx := tx ch @ [wire (lit ''file.close()''),
                                     wire (open_w_request U filename)]
                            @ map (\<lambda>i. wire (write_request U
                                               (slice_to B (rest_after B i data))))
                                [0..<Suc (length es)]\<rparr>))"
proof (intro conjI impI)
  assume "rx ch = e1 @ CRLF @ e2 @ CRLF @ ''nil'' @ CRLF @ rest"
  from write_file_open [OF assms text_line_nil this]
  show "write_file U filename data B ch
          = (Raise open_w_failed,
             ch\<lparr>rx := rest,
                tx := tx ch @ [wire (lit ''file.close()''),
                               wire (open_w_request U filename)]\<rparr>)"
    by (simp add: Let_def)
next
  assume a: "\<not> has_crlf ob \<and> utf8_decode ob = Some opened \<and> opened \<noteq> lit ''nil''
          \<and> rest_after B (length es) data \<noteq> []
          \<and> (\<forall>e\<in>set es. text_line e) \<and> text_line ek
          \<and> \<not> has_crlf rb \<and> utf8_decode rb = Some r \<and> r \<noteq> lit ''true''
          \<and> rx ch = e1 @ CRLF @ e2 @ CRLF @ ob @ CRLF
                     @ concat (map (\<lambda>e. e @ CRLF @ ''true'' @ CRLF) es)
                     @ ek @ CRLF @ rb @ CRLF @ rest"
  define mid where
    "mid = concat (map (\<lambda>e. e @ CRLF @ ''true'' @ CRLF) es) @ ek @ CRLF @ rb @ CRLF @ rest"
  define ch3 where
    "ch3 = ch\<lparr>rx := mid,
              tx := tx ch @ [wire (lit ''file.close()''), wire (open_w_request U filename)]\<rparr>"
  from a have rxc: "rx ch = e1 @ CRLF @ e2 @ CRLF @ ob @ CRLF @ mid"
    by (simp add: mid_def)
  from a have ob: "\<not> has_crlf ob" "utf8_decode ob = Some opened" by simp_all
  from write_file_open [OF assms ob rxc] a
  have w: "write_file U filename data B ch
             = and_then (write_file_loop U data B ch3)
                 (\<lambda>_ ch4. send_command (lit ''file.close()'') ch4)"
    by (simp add: Let_def ch3_def)
  from a have ra: "rest_after B (length es) data \<noteq> []" and es: "\<forall>e\<in>set es. text_line e"
    and ek: "text_line ek" and rb: "\<not> has_crlf rb" "utf8_decode rb = Some r"
    and r: "r \<noteq> lit ''true''"
    by simp_all
  have "rx ch3 = mid" by (simp add: ch3_def)
  then have "rx ch3 = concat (map (\<lambda>e. e @ CRLF @ ''true'' @ CRLF) es)
                 @ ek @ CRLF @ rb @ CRLF @ rest"
    by (simp add: mid_def)
  from write_file_loop_rejected [OF assms(1) ra es ek rb r this]
  show "write_file U filename data B ch
          = (Raise (write_failed U r),
             ch\<lparr>rx := rest,
                tx := tx ch @ [wire (lit ''file.close()''),
                               wire (open_w_request U filename)]
                      @ map (\<lambda>i. wire (write_request U
                                         (slice_to B (rest_after B i data))))
                          [0..<Suc (length es)]\<rparr>)"
    by (simp add: w and_then_def ch3_def del: upt_Suc)
qed

theorem write_file_errors_witness:
  "write_file no_unicode (lit ''test.txt'') (lit ''1234'') 64
     \<lparr>rx = ''file.close()'' @ CRLF @ ''=file.open('test.txt', 'w')'' @ CRLF
            @ ''nil'' @ CRLF,
      tx = [], fault = False\<rparr>
   = (Raise (IOError (lit ''Could not open file for writing!'')),
      \<lparr>rx = [],
       tx = [''file.close()'' @ CRLF, ''=file.open('test.txt', 'w')'' @ CRLF],
       fault = False\<rparr>)
   \<and> write_file no_unicode (lit ''test.txt'') (lit ''123'') 2
     \<lparr>rx = ''file.close()'' @ CRLF @ ''=file.open('test.txt', 'w')'' @ CRLF
            @ ''true'' @ CRLF
            @ ''=file.write('12')'' @ CRLF @ ''true'' @ CRLF
            @ ''=file.write('3')'' @ CRLF @ ''nil'' @ CRLF,
      tx = [], fault = False\<rparr>
   = (Raise (IOError (lit ''Write failed! (Return value: 'nil')'')),
      \<lparr>rx = [],
       tx = [''file.close()'' @ CRLF, ''=file.open('test.txt', 'w')'' @ CRLF,
             ''=file.write('12')'' @ CRLF, ''=file.write('3')'' @ CRLF],
       fault = False\<rparr>)"
proof -
  have wf: "wf_db no_unicode"
    by (simp add: wf_db_def no_unicode_def)
  have e1: "text_line ''file.close()''" and e2: "text_line ''=file.open('test.txt', 'w')''"
    by code_simp+
  have w: "wire (lit ''file.close()'') = ''file.close()'' @ CRLF"
    "wire (open_w_request no_unicode (lit ''test.txt''))
       = ''=file.open('test.txt', 'w')'' @ CRLF"
    by code_simp+
  let ?A = "\<lparr>rx = ''file.close()'' @ CRLF @ ''=file.open('test.txt', 'w')'' @ CRLF
            @ ''nil'' @ CRLF,
      tx = [], fault = False\<rparr>"
  have "rx ?A = ''file.close()'' @ CRLF @ ''=file.open('test.txt', 'w')'' @ CRLF
                  @ ''nil'' @ CRLF @ []"
    by simp
  with write_file_errors [OF wf e1 e2, THEN conjunct1,
      of ?A "[]" "lit ''test.txt''" "lit ''1234''" 64]
  have A: "write_file no_unicode (lit ''test.txt'') (lit ''1234'') 64 ?A
             = (Raise (IOError (lit ''Could not open file for writing!'')),
                \<lparr>rx = [],
                 tx = [''file.close()'' @ CRLF, ''=file.open('test.txt', 'w')'' @ CRLF],
                 fault = False\<rparr>)"
    by (simp add: w)
  let ?B = "\<lparr>rx = ''file.close()'' @ CRLF @ ''=file.open('test.txt', 'w')'' @ CRLF
            @ ''true'' @ CRLF
            @ ''=file.write('12')'' @ CRLF @ ''true'' @ CRLF
            @ ''=file.write('3')'' @ CRLF @ ''nil'' @ CRLF,
      tx = [], fault = False\<rparr>"
  let ?es = "[''=file.write('12')'']"
  have h: "\<not> has_crlf ''true''" "utf8_decode ''true'' = Some (lit ''true'')"
    "lit ''true'' \<noteq> lit ''nil''"
    "rest_after 2 (length ?es) (lit ''123'') \<noteq> []"
    "\<forall>e\<in>set ?es. text_line e" "text_line ''=file.write('3')''"
    "\<not> has_crlf ''nil''" "utf8_decode ''nil'' = Some (lit ''nil'')"
    "lit ''nil'' \<noteq> lit ''true''"
    by code_simp+
  have rxB: "rx ?B = ''file.close()'' @ CRLF @ ''=file.open('test.txt', 'w')'' @ CRLF
                     @ ''true'' @ CRLF
                     @ concat (map (\<lambda>e. e @ CRLF @ ''true'' @ CRLF) ?es)
                     @ ''=file.write('3')'' @ CRLF @ ''nil'' @ CRLF @ []"
    by simp
  have v: "map (\<lambda>i. wire (write_request no_unicode
                            (slice_to 2 (rest_after 2 i (lit ''123'')))))
             [0..<Suc (length ?es)]
           = [''=file.write('12')'' @ CRLF, ''=file.write('3')'' @ CRLF]"
    "write_failed no_unicode (lit ''nil'')
       = IOError (lit ''Write failed! (Return value: 'nil')'')"
    by code_simp+
  from write_file_errors [OF wf e1 e2, THEN conjunct2, rule_format,
      of "''true''" "lit ''true''" 2 ?es "lit ''123''" "''=file.write('3')''"
         "''nil''" "lit ''nil''" ?B "[]" "lit ''test.txt''"] h rxB
  have B: "write_file no_unicode (lit ''test.txt'') (lit ''123'') 2 ?B
             = (Raise (IOError (lit ''Write failed! (Return value: 'nil')'')),
                \<lparr>rx = [],
                 tx = [''file.close()'' @ CRLF, ''=file.open('test.txt', 'w')'' @ CRLF,
                       ''=file.write('12')'' @ CRLF, ''=file.write('3')'' @ CRLF],
                 fault = False\<rparr>)"
    by (simp only: v w) simp
  from A B show ?thesis by (rule conjI)
qed




text \<open>C9, as the code has it. \<open>read_file\<close> ends with \<open>data.decode("utf-8")\<close>: for a
  file that holds the single byte 0xFF it raises UnicodeDecodeError, where the claim has
  it return that byte.\<close>

theorem read_file_byte_FF_raises:
  "read_file no_unicode (lit ''test.txt'') 1
     \<lparr>rx = ''file.close()'' @ CRLF @ ''=file.list()['test.txt']'' @ CRLF @ ''1'' @ CRLF
            @ ''=file.open('test.txt', 'r')'' @ CRLF @ ''true'' @ CRLF
            @ ''uart.write(0, file.read(1))'' @ CRLF @ [CHR 0xFF],
      tx = [], fault = False\<rparr>
   = (Raise UnicodeDecodeError,
      \<lparr>rx = [],
       tx = [''file.close()'' @ CRLF, ''=file.list()['test.txt']'' @ CRLF,
             ''=file.open('test.txt', 'r')'' @ CRLF,
             ''uart.write(0, file.read(1))'' @ CRLF],
       fault = False\<rparr>)"
  by code_simp

text \<open>C9, amended. For an existing file that opens and whose size equals the block size,
  so that it is read in one block, \<open>read_file\<close> reads the block's bytes raw, straight after
  the echo of the block request and with no line framing, and returns them decoded as
  UTF-8: the text they encode when they are valid UTF-8 (for ASCII content the same
  characters, byte for byte), UnicodeDecodeError otherwise.\<close>

theorem read_file_one_block_decoded:
  assumes "wf_db U" and "text_line e1" and "text_line e2" and "text_line e3"
    and "text_line e4" and "0 < n" and "length content = n"
    and "rx ch = e1 @ CRLF @ e2 @ CRLF @ ascii_bytes (dec_str n) @ CRLF
                 @ e3 @ CRLF @ ''true'' @ CRLF @ e4 @ CRLF @ content @ rest"
  shows "read_file U filename (int n) ch
           = ((case utf8_decode content of
                 None \<Rightarrow> Raise UnicodeDecodeError
               | Some text \<Rightarrow> Return text),
              ch\<lparr>rx := rest,
                 tx := tx ch @ [wire (lit ''file.close()''),
                                wire (size_request U filename),
                                wire (open_r_request U filename),
                                wire (read_request (int n))]\<rparr>)
         \<and> (ascii content \<longrightarrow> utf8_decode content = Some (lit content))"
proof
  define ch5 where
    "ch5 = ch\<lparr>rx := e4 @ CRLF @ content @ rest,
               tx := tx ch @ [wire (lit ''file.close()''), wire (size_request U filename),
                              wire (open_r_request U filename)]\<rparr>"
  have nl: "\<not> has_crlf (ascii_bytes (dec_str n))"
    by (rule no_lf_no_crlf [OF dec_bytes_no_lf])
  have rxc: "rx ch = e1 @ CRLF @ e2 @ CRLF @ ascii_bytes (dec_str n) @ CRLF
                 @ e3 @ CRLF @ ''true'' @ CRLF @ (e4 @ CRLF @ content @ rest)"
    by (simp add: assms(8))
  have "\<not> has_crlf ''true''" by simp
  from read_file_open [OF assms(1,2,3,4) nl utf8_decode_dec dec_str_not_nil
      int_of_str_dec_str this text_line_true(2) rxc, of filename "int n"]
  have o: "read_file U filename (int n) ch
             = and_then (read_file_loop (int n) (int n) [] ch5)
                 (\<lambda>data ch6.
                    case utf8_decode data of
                      None \<Rightarrow> (Raise UnicodeDecodeError, ch6)
                    | Some text \<Rightarrow> (Return text, ch6))"
    by (simp add: Let_def ch5_def)
  have l: "read_file_loop (int n) (int n) [] ch5
             = (Return content,
                ch5\<lparr>rx := rest, tx := tx ch5 @ [wire (read_request (int n))]\<rparr>)"
    by (rule read_file_loop_one_block [OF assms(6,7,5)]) (simp add: ch5_def)
  show "read_file U filename (int n) ch
           = ((case utf8_decode content of
                 None \<Rightarrow> Raise UnicodeDecodeError
               | Some text \<Rightarrow> Return text),
              ch\<lparr>rx := rest,
                 tx := tx ch @ [wire (lit ''file.close()''),
                                wire (size_request U filename),
                                wire (open_r_request U filename),
                                wire (read_request (int n))]\<rparr>)"
  proof -
    have fin: "ch5\<lparr>rx := rest, tx := tx ch5 @ [wire (read_request (int n))]\<rparr>
                 = ch\<lparr>rx := rest,
                      tx := tx ch @ [wire (lit ''file.close()''),
                                     wire (size_request U filename),
                                     wire (open_r_request U filename),
                                     wire (read_request (int n))]\<rparr>"
      by (simp add: ch5_def)
    show ?thesis
      by (simp add: o l and_then_def fin split: option.splits)
  qed
  show "ascii content \<longrightarrow> utf8_decode content = Some (lit content)"
    by (simp add: utf8_decode_ascii)
qed

theorem read_file_one_block_decoded_witness:
  "read_file no_unicode (lit ''test.txt'') 3
     \<lparr>rx = ''file.close()'' @ CRLF @ ''=file.list()['test.txt']'' @ CRLF @ ''3'' @ CRLF
            @ ''=file.open('test.txt', 'r')'' @ CRLF @ ''true'' @ CRLF
            @ ''uart.write(0, file.read(3))'' @ CRLF @ [CHR 0x00, CHR 0x41, CHR 0x7F]
            @ ''> '',
      tx = [], fault = False\<rparr>
   = (Return [0, 65, 127],
      \<lparr>rx = ''> '',
       tx = [''file.close()'' @ CRLF, ''=file.list()['test.txt']'' @ CRLF,
             ''=file.open('test.txt', 'r')'' @ CRLF,
             ''uart.write(0, file.read(3))'' @ CRLF],
       fault = False\<rparr>)
   \<and> read_file no_unicode (lit ''test.txt'') 2
     \<lparr>rx = ''file.close()'' @ CRLF @ ''=file.list()['test.txt']'' @ CRLF @ ''2'' @ CRLF
            @ ''=file.open('test.txt', 'r')'' @ CRLF @ ''true'' @ CRLF
            @ ''uart.write(0, file.read(2))'' @ CRLF @ [CHR 0xC3, CHR 0xA9],
      tx = [], fault = False\<rparr>
   = (Return [233],
      \<lparr>rx = [],
       tx = [''file.close()'' @ CRLF, ''=file.list()['test.txt']'' @ CRLF,
             ''=file.open('test.txt', 'r')'' @ CRLF,
             ''uart.write(0, file.read(2))'' @ CRLF],
       fault = False\<rparr>)"
proof -
  have wf: "wf_db no_unicode"
    by (simp add: wf_db_def no_unicode_def)
  have e: "text_line ''file.close()''" "text_line ''=file.list()['test.txt']''"
    "text_line ''=file.open('test.txt', 'r')''"
    and e4: "text_line ''uart.write(0, file.read(3))''"
      "text_line ''uart.write(0, file.read(2))''"
    by code_simp+
  have w: "wire (lit ''file.close()'') = ''file.close()'' @ CRLF"
    "wire (size_request no_unicode (lit ''test.txt''))
       = ''=file.list()['test.txt']'' @ CRLF"
    "wire (open_r_request no_unicode (lit ''test.txt''))
       = ''=file.open('test.txt', 'r')'' @ CRLF"
    "wire (read_request 3) = ''uart.write(0, file.read(3))'' @ CRLF"
    "wire (read_request 2) = ''uart.write(0, file.read(2))'' @ CRLF"
    by code_simp+
  have d: "utf8_decode [CHR 0x00, CHR 0x41, CHR 0x7F] = Some [0, 65, 127]"
    "utf8_decode [CHR 0xC3, CHR 0xA9] = Some [233]"
    "ascii_bytes (dec_str 3) = ''3''" "ascii_bytes (dec_str 2) = ''2''"
    by code_simp+
  let ?A = "\<lparr>rx = ''file.close()'' @ CRLF @ ''=file.list()['test.txt']'' @ CRLF
            @ ''3'' @ CRLF
            @ ''=file.open('test.txt', 'r')'' @ CRLF @ ''true'' @ CRLF
            @ ''uart.write(0, file.read(3))'' @ CRLF @ [CHR 0x00, CHR 0x41, CHR 0x7F]
            @ ''> '',
      tx = [], fault = False\<rparr>"
  have rxA: "rx ?A = ''file.close()'' @ CRLF @ ''=file.list()['test.txt']'' @ CRLF
                 @ ascii_bytes (dec_str 3) @ CRLF
                 @ ''=file.open('test.txt', 'r')'' @ CRLF @ ''true'' @ CRLF
                 @ ''uart.write(0, file.read(3))'' @ CRLF
                 @ [CHR 0x00, CHR 0x41, CHR 0x7F] @ ''> ''"
    by (simp add: d)
  have lA: "0 < (3 :: nat)" "length [CHR 0x00, CHR 0x41, CHR 0x7F] = 3" by simp_all
  from read_file_one_block_decoded [OF wf e e4(1) lA rxA, THEN conjunct1,
      of "lit ''test.txt''"]
  have A: "read_file no_unicode (lit ''test.txt'') 3 ?A
   = (Return [0, 65, 127],
      \<lparr>rx = ''> '',
       tx = [''file.close()'' @ CRLF, ''=file.list()['test.txt']'' @ CRLF,
             ''=file.open('test.txt', 'r')'' @ CRLF,
             ''uart.write(0, file.read(3))'' @ CRLF],
       fault = False\<rparr>)"
    by (simp only: d w of_nat_numeral) simp
  let ?B = "\<lparr>rx = ''file.close()'' @ CRLF @ ''=file.list()['test.txt']'' @ CRLF
            @ ''2'' @ CRLF
            @ ''=file.open('test.txt', 'r')'' @ CRLF @ ''true'' @ CRLF
            @ ''uart.write(0, file.read(2))'' @ CRLF @ [CHR 0xC3, CHR 0xA9],
      tx = [], fault = False\<rparr>"
  have rxB: "rx ?B = ''file.close()'' @ CRLF @ ''=file.list()['test.txt']'' @ CRLF
                 @ ascii_bytes (dec_str 2) @ CRLF
                 @ ''=file.open('test.txt', 'r')'' @ CRLF @ ''true'' @ CRLF
                 @ ''uart.write(0, file.read(2))'' @ CRLF
                 @ [CHR 0xC3, CHR 0xA9] @ []"
    by (simp add: d)
  have lB: "0 < (2 :: nat)" "length [CHR 0xC3, CHR 0xA9] = 2" by simp_all
  from read_file_one_block_decoded [OF wf e e4(2) lB rxB, THEN conjunct1,
      of "lit ''test.txt''"]
  have B: "read_file no_unicode (lit ''test.txt'') 2 ?B
   = (Return [233],
      \<lparr>rx = [],
       tx = [''file.close()'' @ CRLF, ''=file.list()['test.txt']'' @ CRLF,
             ''=file.open('test.txt', 'r')'' @ CRLF,
             ''uart.write(0, file.read(2))'' @ CRLF],
       fault = False\<rparr>)"
    by (simp only: d w of_nat_numeral) simp
  from A B show ?thesis by (rule conjI)
qed

end
